theory Spec2Isabelle
  imports Complex_Main
begin

section \<open>Team-code normalisation (nhlproj/common.py, scripts/04 lines 63-67)\<close>


text \<open>
  Python's \<^verbatim>\<open>str.strip()\<close> removes leading and trailing whitespace. On the one-byte
  characters of \<^typ>\<open>string\<close> these are space, tab, line feed, vertical tab, form feed
  and carriage return.
\<close>

definition is_space :: "char \<Rightarrow> bool" where
  "is_space c = (c \<in> set [CHR '' '', CHR 0x09, CHR 0x0A, CHR 0x0B, CHR 0x0C, CHR 0x0D])"

definition strip :: "string \<Rightarrow> string" where
  "strip s = rev (dropWhile is_space (rev (dropWhile is_space s)))"



text \<open>
  A table is its list of column names and its rows; a row gives the cell of every column.
  Only the cells of columns listed in \<open>columns\<close> are meaningful.
\<close>

record 'c table =
  columns :: "string list"
  rows :: "(string \<Rightarrow> 'c) list"




section \<open>Upcoming-game projector (scripts/07, lines 165-184)\<close>

text \<open>
  A persisted model is opaque: \<open>models y x\<close> stands for the value that
  \<^verbatim>\<open>models[y].predict(X)\<close> returns on the row with feature vector \<open>x\<close>. Floating-point
  numbers are modelled as real numbers.
\<close>

record pred =
  y_goalsFor :: real
  y_goalsAgainst :: real
  y_shotsOnGoalFor :: real
  y_shotsOnGoalAgainst :: real
  y_xGoalsFor :: real
  y_xGoalsAgainst :: real

text \<open>\<^verbatim>\<open>predict_team(prefix)\<close> on the leg of one game.\<close>

definition predict_team :: "(string \<Rightarrow> 'x \<Rightarrow> real) \<Rightarrow> 'x \<Rightarrow> pred" where
  "predict_team models x =
     \<lparr>y_goalsFor = models ''y_goalsFor'' x,
      y_goalsAgainst = models ''y_goalsAgainst'' x,
      y_shotsOnGoalFor = models ''y_shotsOnGoalFor'' x,
      y_shotsOnGoalAgainst = models ''y_shotsOnGoalAgainst'' x,
      y_xGoalsFor = models ''y_xGoalsFor'' x,
      y_xGoalsAgainst = models ''y_xGoalsAgainst'' x\<rparr>"

record projection =
  home_goals :: real
  away_goals :: real
  home_sog :: real
  away_sog :: real
  home_xg :: real
  away_xg :: real
  proj_total_goals :: real
  proj_total_sog :: real

text \<open>Lines 170-184 of \<^verbatim>\<open>main\<close>, for one row of \<^verbatim>\<open>full\<close>.\<close>

definition project_game :: "(string \<Rightarrow> 'x \<Rightarrow> real) \<Rightarrow> 'x \<Rightarrow> 'x \<Rightarrow> projection" where
  "project_game models home_x away_x =
     (let home_pred = predict_team models home_x;
          away_pred = predict_team models away_x;
          hg = 0.5 * y_goalsFor home_pred + 0.5 * y_goalsAgainst away_pred;
          ag = 0.5 * y_goalsFor away_pred + 0.5 * y_goalsAgainst home_pred;
          hs = 0.5 * y_shotsOnGoalFor home_pred + 0.5 * y_shotsOnGoalAgainst away_pred;
          as = 0.5 * y_shotsOnGoalFor away_pred + 0.5 * y_shotsOnGoalAgainst home_pred;
          hx = 0.5 * y_xGoalsFor home_pred + 0.5 * y_xGoalsAgainst away_pred;
          ax = 0.5 * y_xGoalsFor away_pred + 0.5 * y_xGoalsAgainst home_pred
      in \<lparr>home_goals = hg, away_goals = ag, home_sog = hs, away_sog = as,
          home_xg = hx, away_xg = ax,
          proj_total_goals = hg + ag, proj_total_sog = hs + as\<rparr>)"

text \<open>
  The projection table before its final reordering by (scheduleDate, homeTeam, awayTeam):
  one row per row of \<^verbatim>\<open>full\<close>, which holds the feature vectors of the two legs.
\<close>

definition project_games ::
  "(string \<Rightarrow> 'x \<Rightarrow> real) \<Rightarrow> ('g \<times> 'x \<times> 'x) list \<Rightarrow> ('g \<times> projection) list" where
  "project_games models full = map (\<lambda>(g, hx, ax). (g, project_game models hx ax)) full"

text \<open>Example models: the home leg is the vector \<open>True\<close>, the away leg \<open>False\<close>.\<close>

definition ex_models :: "string \<Rightarrow> bool \<Rightarrow> real" where
  "ex_models y x =
     (if y = ''y_goalsFor'' then (if x then 3.1 else 2.5)
      else if y = ''y_goalsAgainst'' then (if x then 2.7 else 2.9)
      else if y = ''y_shotsOnGoalFor'' then (if x then 31 else 28)
      else if y = ''y_shotsOnGoalAgainst'' then (if x then 30 else 29)
      else 0)"

section \<open>Per-60 rates (scripts/04, lines 36-39)\<close>

datatype error = KeyError string | RuntimeError string | TypeError | ValueError string







text \<open>\<^verbatim>\<open>df[col]\<close>: the cells of a column, or KeyError when the table has no such column.\<close>

definition getcol :: "'c table \<Rightarrow> string \<Rightarrow> error + 'c list" where
  "getcol d c = (if c \<in> set (columns d) then Inr (map (\<lambda>r. r c) (rows d))
                 else Inl (KeyError c))"



section \<open>Schema normaliser (nhlproj/common.py, lines 94-134)\<close>

text \<open>
  A cell of a raw table is a string or some other object (a number, a date, a null), whose
  nature the normaliser never inspects.
\<close>

datatype 'x cell = Str string | Obj 'x

text \<open>
  \<^verbatim>\<open>first_existing_col(df, candidates)\<close>, and \<^verbatim>\<open>pick_col\<close> of scripts/04 and
  scripts/05, which has the same body: the first candidate that is a column of the table.
\<close>

fun first_existing_col :: "string list \<Rightarrow> string list \<Rightarrow> string option" where
  "first_existing_col cols [] = None"
| "first_existing_col cols (c # candidates) =
     (if c \<in> set cols then Some c else first_existing_col cols candidates)"

abbreviation pick_col :: "string list \<Rightarrow> string list \<Rightarrow> string option" where
  "pick_col \<equiv> first_existing_col"

text \<open>
  \<^verbatim>\<open>df[name] = ...\<close>: the column is overwritten when it exists and appended otherwise.
\<close>

definition set_column :: "string \<Rightarrow> ((string \<Rightarrow> 'c) \<Rightarrow> 'c) \<Rightarrow> 'c table \<Rightarrow> 'c table" where
  "set_column name f d =
     \<lparr>columns = (if name \<in> set (columns d) then columns d else columns d @ [name]),
      rows = map (\<lambda>r. r(name := f r)) (rows d)\<rparr>"

text \<open>The step \<^verbatim>\<open>if name not in df.columns: c = first_existing_col(df, cands); if c: df[name] = df[c]\<close>.\<close>

definition alias_column :: "string \<Rightarrow> string list \<Rightarrow> 'c table \<Rightarrow> 'c table" where
  "alias_column name cands d =
     (if name \<notin> set (columns d) then
        (case first_existing_col (columns d) cands of
           Some c \<Rightarrow> set_column name (\<lambda>r. r c) d
         | None \<Rightarrow> d)
      else d)"

text \<open>
  \<^verbatim>\<open>standardize_team_game_cols(df)\<close>. The parameter \<open>parse_game_date\<close> is the function of
  that name of common.py, which rests on \<^verbatim>\<open>pd.to_datetime\<close>.
\<close>

definition standardize_team_game_cols ::
  "('x cell \<Rightarrow> 'x cell) \<Rightarrow> 'x cell table \<Rightarrow> 'x cell table" where
  "standardize_team_game_cols parse_game_date df =
     (let d1 = alias_column ''team'' [''playerTeam'', ''teamAbbrev'', ''teamCode''] df;
          d2 = alias_column ''team_opp''
                 [''opposingTeam'', ''opponentTeam'', ''oppTeam'', ''opponent''] d1;
          d3 = alias_column ''gameId'' [''game_id'', ''gamePk'', ''id''] d2;
          d4 = (if ''gameDate'' \<in> set (columns d3)
                then set_column ''gameDate'' (\<lambda>r. parse_game_date (r ''gameDate'')) d3
                else (case first_existing_col (columns d3) [''date''] of
                        Some c \<Rightarrow> set_column ''gameDate'' (\<lambda>r. parse_game_date (r c)) d3
                      | None \<Rightarrow> d3));
          d5 = alias_column ''home_or_away'' [''homeOrAway'', ''homeAway''] d4;
          d6 = (if ''situation'' \<notin> set (columns d5)
                then set_column ''situation'' (\<lambda>r. Str ''all'') d5 else d5)
      in d6)"

text \<open>
  The situation filter of scripts/01 (lines 71 and 95):
  \<^verbatim>\<open>df[df["situation"].astype(str).str.lower().eq("all")]\<close>. The parameter \<open>repr\<close> is
  \<^verbatim>\<open>str\<close> on a cell that is not a string; \<open>lower\<close> is \<^verbatim>\<open>str.lower\<close> on ASCII letters.
\<close>

definition astype_str :: "('x \<Rightarrow> string) \<Rightarrow> 'x cell \<Rightarrow> string" where
  "astype_str repr c = (case c of Str s \<Rightarrow> s | Obj x \<Rightarrow> repr x)"

definition lower_char :: "char \<Rightarrow> char" where
  "lower_char c = (let n = (of_char c :: nat)
                   in if 65 \<le> n \<and> n \<le> 90 then char_of (n + 32) else c)"

definition lower :: "string \<Rightarrow> string" where
  "lower s = map lower_char s"

definition situation_filter :: "('x \<Rightarrow> string) \<Rightarrow> 'x cell table \<Rightarrow> error + 'x cell table" where
  "situation_filter repr d =
     (case getcol d ''situation'' of
        Inl e \<Rightarrow> Inl e
      | Inr col \<Rightarrow>
          Inr (d\<lparr>rows := filter (\<lambda>r. lower (astype_str repr (r ''situation'')) = ''all'')
                            (rows d)\<rparr>))"

definition ex_raw_table :: "nat cell table" where
  "ex_raw_table = \<lparr>columns = [''playerTeam'', ''gameId'', ''gameDate''],
     rows = [(\<lambda>_. Obj 0)(''playerTeam'' := Str ''BOS'', ''gameId'' := Obj 7),
             (\<lambda>_. Obj 0)(''playerTeam'' := Str ''BOS'', ''gameId'' := Obj 8)]\<rparr>"

text \<open>
  A relation between a table and a later state of it: the same number of rows, the same
  situation cells, and a situation column in both or in neither.
\<close>

definition keeps_situation :: "'c table \<Rightarrow> 'c table \<Rightarrow> bool" where
  "keeps_situation d d' \<longleftrightarrow>
     length (rows d') = length (rows d) \<and>
     ((''situation'' \<in> set (columns d')) = (''situation'' \<in> set (columns d))) \<and>
     map (\<lambda>r. r ''situation'') (rows d') = map (\<lambda>r. r ''situation'') (rows d)"


section \<open>Column resolution of the feature build (scripts/04, lines 108-170)\<close>

text \<open>
  Which columns the skater and goalie sections of \<^verbatim>\<open>main\<close> resolve, and the errors that
  depend on the column names of the input table alone. A section returns the list of columns
  it rolls (\<^verbatim>\<open>roll_cols_sk\<close>, \<^verbatim>\<open>roll_cols_go\<close>); errors raised by the contents of
  cells are outside this model.
\<close>

definition PID_CANDIDATES :: "string list" where
  "PID_CANDIDATES = [''playerId'', ''player_id'', ''id'', ''nhlPlayerId'']"

definition TOI_CANDIDATES :: "string list" where
  "TOI_CANDIDATES = [''icetime_min'', ''icetime'', ''timeOnIce'', ''toi'']"

definition count_candidates :: "string list" where
  "count_candidates =
     [''goals'', ''assists'', ''points'',
      ''shotsOnGoal'', ''shots'', ''shots_on_goal'',
      ''ixG'', ''iXG'', ''xGoals'', ''xGoalsFor'', ''xG'',
      ''iFenwick'', ''iCorsi'', ''shotAttempts'']"

text \<open>
  \<^verbatim>\<open>df.sort_values(keys)\<close> raises KeyError for the first key that is no column; this is
  the first statement of \<^verbatim>\<open>rolling_features\<close>.
\<close>

definition sort_values_check :: "string list \<Rightarrow> string list \<Rightarrow> error option" where
  "sort_values_check cols keys =
     (case filter (\<lambda>k. k \<notin> set cols) keys of [] \<Rightarrow> None | k # _ \<Rightarrow> Some (KeyError k))"

text \<open>Adding columns by assignment, on the list of column names.\<close>

definition add_columns :: "string list \<Rightarrow> string list \<Rightarrow> string list" where
  "add_columns cols new = fold (\<lambda>n cs. if n \<in> set cs then cs else cs @ [n]) new cols"

definition skater_section :: "string list \<Rightarrow> error + string list" where
  "skater_section cols =
     (case (pick_col cols PID_CANDIDATES, pick_col cols TOI_CANDIDATES) of
        (Some pid_col, Some toi_col0) \<Rightarrow>
          (let toi_col = (if toi_col0 \<noteq> ''icetime_min'' \<and> ''icetime_min'' \<in> set cols
                          then ''icetime_min'' else toi_col0);
               count_cols = filter (\<lambda>c. c \<in> set cols) count_candidates;
               cols1 = add_columns cols (map (\<lambda>c. c @ ''_per60'') count_cols);
               roll_cols_sk = [toi_col] @ map (\<lambda>c. c @ ''_per60'') count_cols
           in case sort_values_check cols1 [''team'', pid_col, ''gameDate''] of
                Some e \<Rightarrow> Inl e
              | None \<Rightarrow> Inr roll_cols_sk)
      | _ \<Rightarrow> Inl (RuntimeError ''Skater playerId or TOI column not found.''))"

definition goalie_section :: "string list \<Rightarrow> error + string list" where
  "goalie_section cols =
     (case pick_col cols PID_CANDIDATES of
        None \<Rightarrow> Inl (RuntimeError ''Goalie playerId column not found.'')
      | Some g_pid_col \<Rightarrow>
          (let g_toi_col0 = pick_col cols TOI_CANDIDATES;
               g_toi_col = (case g_toi_col0 of
                              Some t \<Rightarrow> (if t \<noteq> ''icetime_min'' \<and> ''icetime_min'' \<in> set cols
                                         then Some ''icetime_min'' else Some t)
                            | None \<Rightarrow> None);
               ga_col = pick_col cols [''goalsAgainst'', ''ga'', ''goals_against''];
               sa_col = pick_col cols [''shotsAgainst'', ''sa'', ''shots_against''];
               sv_col = pick_col cols [''saves'', ''sv''];
               cols1 = add_columns cols [''save_pct''];
               roll_cols_go = concat (map (\<lambda>c. case c of Some n \<Rightarrow> (if n \<in> set cols1 then [n] else [])
                                                  | None \<Rightarrow> [])
                                [ga_col, sa_col, sv_col, Some ''save_pct'', g_toi_col])
           in case sort_values_check cols1 [''team'', g_pid_col, ''gameDate''] of
                Some e \<Rightarrow> Inl e
              | None \<Rightarrow> Inr roll_cols_go))"

section \<open>Model-table assembler (scripts/05)\<close>

text \<open>
  \<^verbatim>\<open>left.merge(right, left_on=..., right_on=..., how="left")\<close> on tables that have the key
  columns. A left row is paired with every right row whose key cells are equal to its own,
  in the order of the right table, and kept once with nulls when there is none; the rows come
  in the order of the left table. \<open>new\<close> lists the columns that the result takes from the
  right table, as pairs of the name in the result and the name in the right table (the merge
  followed by the renaming of the target columns).
\<close>

definition row_match ::
  "string list \<Rightarrow> string list \<Rightarrow> (string \<Rightarrow> 'c) \<Rightarrow> (string \<Rightarrow> 'c) \<Rightarrow> bool" where
  "row_match left_on right_on l r \<longleftrightarrow> map l left_on = map r right_on"

definition attach ::
  "(string \<times> string) list \<Rightarrow> (string \<Rightarrow> 'c) \<Rightarrow> (string \<Rightarrow> 'c) \<Rightarrow> (string \<Rightarrow> 'c)" where
  "attach new l r = (\<lambda>c. case map_of new c of Some src \<Rightarrow> r src | None \<Rightarrow> l c)"

definition merge_left ::
  "'c \<Rightarrow> string list \<Rightarrow> string list \<Rightarrow> (string \<times> string) list \<Rightarrow>
   'c table \<Rightarrow> 'c table \<Rightarrow> 'c table" where
  "merge_left null left_on right_on new L R =
     \<lparr>columns = columns L @ map fst new,
      rows = concat (map (\<lambda>l. case filter (row_match left_on right_on l) (rows R) of
                                   [] \<Rightarrow> [attach new l (\<lambda>_. null)]
                                 | ms \<Rightarrow> map (attach new l) ms)
                         (rows L))\<rparr>"

text \<open>\<^verbatim>\<open>c.startswith(p)\<close>.\<close>

definition startswith :: "string \<Rightarrow> string \<Rightarrow> bool" where
  "startswith c p \<longleftrightarrow> take (length p) c = p"

text \<open>
  \<^verbatim>\<open>strip_and_dedup_columns(df[cols].copy())\<close>: the selected columns with their names
  stripped and the first of every repeated name kept. The rows keep their cells.
\<close>

definition select_columns :: "string list \<Rightarrow> 'c table \<Rightarrow> 'c table" where
  "select_columns cols d = d\<lparr>columns := rev (remdups (rev (map strip cols)))\<rparr>"




text \<open>The columns that the player join takes from the game table, under their new names.\<close>

definition resolved_targets :: "string list \<Rightarrow> (string \<times> string list) list \<Rightarrow> (string \<times> string) list" where
  "resolved_targets cols targets =
     concat (map (\<lambda>(yname, cands). case pick_col cols cands of
                                       Some col \<Rightarrow> [(yname, col)] | None \<Rightarrow> [])
                 targets)"

text \<open>
  The skater and goalie blocks (lines 75-102 and 108-134) have one shape: a single left join
  on (gameId, team, playerId), the player column of the game table being the first alias
  present, then the removal of the column of that name and the renaming of the targets found
  (when the alias is playerId itself, this removes the playerId column of the result).
  Selecting the column \<^verbatim>\<open>None\<close> when no alias is present raises KeyError.
\<close>

definition player_model_table ::
  "'c \<Rightarrow> string \<Rightarrow> (string \<times> string list) list \<Rightarrow> 'c table \<Rightarrow> 'c table \<Rightarrow> error + 'c table" where
  "player_model_table null role_prefix targets feat game =
     (case pick_col (columns game) PID_CANDIDATES of
        None \<Rightarrow> Inl (KeyError ''None'')
      | Some pid \<Rightarrow>
          (let new = resolved_targets (columns game) targets;
               merged = merge_left null [''gameId'', ''team'', ''playerId'']
                          [''gameId'', ''team'', pid] new feat game;
               model = (if pid \<in> set (columns merged)
                        then merged\<lparr>columns := filter (\<lambda>c. c \<noteq> pid) (columns merged)\<rparr>
                        else merged);
               cols = filter (\<lambda>c. c \<in> set (columns model))
                        [''gameId'', ''gameDate'', ''season'', ''team'', ''team_opp'',
                         ''home_or_away'', ''playerId'']
                      @ filter (\<lambda>c. startswith c role_prefix) (columns model)
                      @ filter (\<lambda>c. startswith c ''y_'') (columns model)
           in Inr (select_columns cols model)))"

definition skater_targets :: "(string \<times> string list) list" where
  "skater_targets =
     [(''y_goals'', [''goals'']), (''y_assists'', [''assists'']), (''y_points'', [''points'']),
      (''y_toi'', TOI_CANDIDATES)]"

definition goalie_targets :: "(string \<times> string list) list" where
  "goalie_targets =
     [(''y_goalsAgainst'', [''goalsAgainst'', ''ga'', ''goals_against'']),
      (''y_shotsAgainst'', [''shotsAgainst'', ''sa'', ''shots_against'']),
      (''y_saves'', [''saves'', ''sv'']),
      (''y_toi'', TOI_CANDIDATES)]"

definition skater_model_table :: "'c \<Rightarrow> 'c table \<Rightarrow> 'c table \<Rightarrow> error + 'c table" where
  "skater_model_table null = player_model_table null ''sk_'' skater_targets"

definition goalie_model_table :: "'c \<Rightarrow> 'c table \<Rightarrow> 'c table \<Rightarrow> error + 'c table" where
  "goalie_model_table null = player_model_table null ''go_'' goalie_targets"








section \<open>Trainer and selector (scripts/06)\<close>

text \<open>
  A row of the team model table as the trainer reads it: the season as a nullable integer
  (the column after \<^verbatim>\<open>pd.to_numeric(...).astype("Int64")\<close>), the cell of every target
  column (null as \<open>None\<close>) and the numeric feature vector, which only the models inspect.
\<close>

record 'x mrow =
  season :: "int option"
  ycell :: "string \<Rightarrow> real option"
  xfeat :: 'x

record report_row =
  r_target :: string
  r_model :: string
  r_holdout_season :: int
  r_MAE :: real
  r_RMSE :: real
  r_n_train :: nat
  r_n_test :: nat
  r_n_features :: nat

text \<open>What a run leaves behind: the rows of the report and the model files written.\<close>

record 'm train_state =
  report_rows :: "report_row list"
  saved :: "(string \<times> 'm) list"

text \<open>The keys of the dictionary \<^verbatim>\<open>candidates\<close>, in its order.\<close>

definition candidates :: "string list" where
  "candidates = [''ridge'', ''hgb'', ''rf'']"

text \<open>\<^verbatim>\<open>df.dropna(subset=["season"])\<close>.\<close>

definition dropna_season :: "'x mrow list \<Rightarrow> 'x mrow list" where
  "dropna_season df = filter (\<lambda>r. season r \<noteq> None) df"

text \<open>
  \<^verbatim>\<open>int(df["season"].max())\<close>: the greatest season of the table, and no value (the
  conversion of a missing maximum raises) when no row has a season.
\<close>

definition holdout_of :: "'x mrow list \<Rightarrow> int option" where
  "holdout_of df = (case List.map_filter season df of
                      [] \<Rightarrow> None
                    | s # ss \<Rightarrow> Some (fold max ss s))"

text \<open>Lines 88-90: the rows with the target, split by season.\<close>

definition train_split :: "'x mrow list \<Rightarrow> int \<Rightarrow> string \<Rightarrow> 'x mrow list" where
  "train_split df holdout_season y =
     (let d = filter (\<lambda>r. ycell r y \<noteq> None) df
      in filter (\<lambda>r. case season r of Some s \<Rightarrow> s < holdout_season | None \<Rightarrow> False) d)"

definition test_split :: "'x mrow list \<Rightarrow> int \<Rightarrow> string \<Rightarrow> 'x mrow list" where
  "test_split df holdout_season y =
     (let d = filter (\<lambda>r. ycell r y \<noteq> None) df
      in filter (\<lambda>r. case season r of Some s \<Rightarrow> s = holdout_season | None \<Rightarrow> False) d)"

text \<open>
  The body of the loop over the candidates (lines 104-118). The parameter \<open>fit_eval\<close>
  stands for \<^verbatim>\<open>model.fit\<close>, \<^verbatim>\<open>model.predict\<close> and \<^verbatim>\<open>eval_metrics\<close>: for a
  candidate, a target and the two splits it gives the fitted model, its MAE and its RMSE
  on the holdout split.
\<close>

definition try_candidate ::
  "(string \<Rightarrow> string \<Rightarrow> 'x mrow list \<Rightarrow> 'x mrow list \<Rightarrow> 'm \<times> real \<times> real) \<Rightarrow>
   nat \<Rightarrow> int \<Rightarrow> string \<Rightarrow> 'x mrow list \<Rightarrow> 'x mrow list \<Rightarrow> string \<Rightarrow>
   report_row list \<times> (string \<times> 'm \<times> real \<times> real) option \<times> real \<Rightarrow>
   report_row list \<times> (string \<times> 'm \<times> real \<times> real) option \<times> real" where
  "try_candidate fit_eval n_features holdout_season y train_df test_df name acc =
     (case acc of (rep, best, best_mae) \<Rightarrow>
        (case fit_eval name y train_df test_df of (model, mae, rmse) \<Rightarrow>
           (let rep1 = rep @ [\<lparr>r_target = y, r_model = name,
                                  r_holdout_season = holdout_season,
                                  r_MAE = mae, r_RMSE = rmse,
                                  r_n_train = length train_df, r_n_test = length test_df,
                                  r_n_features = n_features\<rparr>]
            in if mae < best_mae then (rep1, Some (name, model, mae, rmse), mae)
               else (rep1, best, best_mae))))"

text \<open>
  The body of the loop over the targets (lines 87-123). A target with an empty split is
  skipped. Unpacking \<^verbatim>\<open>best\<close> raises TypeError when it is still \<^verbatim>\<open>None\<close>.
\<close>

definition train_target ::
  "(string \<Rightarrow> string \<Rightarrow> 'x mrow list \<Rightarrow> 'x mrow list \<Rightarrow> 'm \<times> real \<times> real) \<Rightarrow>
   nat \<Rightarrow> int \<Rightarrow> 'x mrow list \<Rightarrow> string \<Rightarrow> 'm train_state \<Rightarrow> error + 'm train_state" where
  "train_target fit_eval n_features holdout_season df y st =
     (let train_df = train_split df holdout_season y;
          test_df = test_split df holdout_season y
      in if length test_df = 0 \<or> length train_df = 0 then Inr st
         else
           (case fold (try_candidate fit_eval n_features holdout_season y train_df test_df)
                   candidates (report_rows st, None, 1000000000000000000) of
              (rep, best, best_mae) \<Rightarrow>
                (case best of
                   None \<Rightarrow> Inl TypeError
                 | Some (best_name, best_model, mae, rmse) \<Rightarrow>
                     Inr \<lparr>report_rows = rep,
                          saved = saved st @ [(''team_'' @ y @ ''.joblib'', best_model)]\<rparr>)))"

fun train_targets ::
  "(string \<Rightarrow> string \<Rightarrow> 'x mrow list \<Rightarrow> 'x mrow list \<Rightarrow> 'm \<times> real \<times> real) \<Rightarrow>
   nat \<Rightarrow> int \<Rightarrow> 'x mrow list \<Rightarrow> string list \<Rightarrow> 'm train_state \<Rightarrow> error + 'm train_state" where
  "train_targets fit_eval n_features holdout_season df [] st = Inr st"
| "train_targets fit_eval n_features holdout_season df (y # ys) st =
     (case train_target fit_eval n_features holdout_season df y st of
        Inl e \<Rightarrow> Inl e
      | Inr st1 \<Rightarrow> train_targets fit_eval n_features holdout_season df ys st1)"

text \<open>
  \<^verbatim>\<open>main\<close> from line 52 on, for a table with a season column: \<open>y_cols_all\<close> are the
  columns whose names start with \<^verbatim>\<open>y_\<close>, \<open>n_features\<close> the number of numeric feature
  columns. The result holds the report before its final sort by (target, MAE).
\<close>

definition train_main ::
  "(string \<Rightarrow> string \<Rightarrow> 'x mrow list \<Rightarrow> 'x mrow list \<Rightarrow> 'm \<times> real \<times> real) \<Rightarrow>
   nat \<Rightarrow> 'x mrow list \<Rightarrow> string list \<Rightarrow> error + 'm train_state" where
  "train_main fit_eval n_features table y_cols_all =
     (let df = dropna_season table
      in case holdout_of df of
           None \<Rightarrow> Inl TypeError
         | Some holdout_season \<Rightarrow>
             train_targets fit_eval n_features holdout_season df y_cols_all
               \<lparr>report_rows = [], saved = []\<rparr>)"

text \<open>
  An example table: two seasons, the target y_goalsFor known in both, the target
  y_xGoalsFor only in the holdout season. The example models are their names.
\<close>

definition ex_model_table :: "unit mrow list" where
  "ex_model_table =
     [\<lparr>season = Some 2022, ycell = (\<lambda>_. None)(''y_goalsFor'' := Some 3), xfeat = ()\<rparr>,
      \<lparr>season = Some 2023, ycell = (\<lambda>_. None)(''y_goalsFor'' := Some 2, ''y_xGoalsFor'' := Some 2.5),
        xfeat = ()\<rparr>,
      \<lparr>season = None, ycell = (\<lambda>_. None)(''y_goalsFor'' := Some 1), xfeat = ()\<rparr>]"

definition ex_fit_eval ::
  "string \<Rightarrow> string \<Rightarrow> unit mrow list \<Rightarrow> unit mrow list \<Rightarrow> string \<times> real \<times> real" where
  "ex_fit_eval name y train_df test_df =
     (name, (if name = ''ridge'' then 1.2 else if name = ''hgb'' then 0.9 else 1.0), 1.5)"

text \<open>Models whose holdout error is huge for every candidate.\<close>

definition ex_fit_eval_huge ::
  "string \<Rightarrow> string \<Rightarrow> unit mrow list \<Rightarrow> unit mrow list \<Rightarrow> string \<times> real \<times> real" where
  "ex_fit_eval_huge name y train_df test_df = (name, 2000000000000000000, 2000000000000000000)"

section \<open>Temporal rolling-feature engine (scripts/04, lines 24-34)\<close>

text \<open>
  A row of the table that \<^verbatim>\<open>rolling_features\<close> receives, seen through the columns the
  function reads: the cells of the grouping columns (a null cell is \<open>None\<close>), the cell of
  the sort column \<^verbatim>\<open>gameDate\<close> as a day number (\<open>None\<close> is NaT), and every other
  column as \<^verbatim>\<open>pd.to_numeric(..., errors="coerce")\<close> reads it, a finite number or NaN
  (\<open>None\<close>). Value columns are columns other than the grouping and sort columns; the
  windows are positive (pandas rejects a window of 0 with \<^verbatim>\<open>min_periods=1\<close>).
\<close>

record 'k game =
  gkey :: "'k option list"
  gdate :: "int option"
  vals :: "string \<Rightarrow> real option"

record 'k frame =
  fcols :: "string list"
  frows :: "'k game list"

text \<open>
  \<^verbatim>\<open>df.sort_values(group_cols + [sort_col])\<close>: ascending and lexicographic over the
  columns, nulls last in each column, rows with equal keys in their original order.
\<close>

fun cell_lt :: "'a::linorder option \<Rightarrow> 'a option \<Rightarrow> bool" where
  "cell_lt (Some a) (Some b) = (a < b)"
| "cell_lt (Some a) None = True"
| "cell_lt None _ = False"

fun keys_lt :: "'a::linorder option list \<Rightarrow> 'a option list \<Rightarrow> bool" where
  "keys_lt (x # xs) (y # ys) = (cell_lt x y \<or> (x = y \<and> keys_lt xs ys))"
| "keys_lt [] (y # ys) = True"
| "keys_lt _ [] = False"

definition row_le :: "'k::linorder game \<Rightarrow> 'k game \<Rightarrow> bool" where
  "row_le a b \<longleftrightarrow>
     keys_lt (gkey a) (gkey b) \<or> (gkey a = gkey b \<and> \<not> cell_lt (gdate b) (gdate a))"

fun insort_row :: "'k::linorder game \<Rightarrow> 'k game list \<Rightarrow> 'k game list" where
  "insort_row x [] = [x]"
| "insort_row x (y # ys) = (if row_le x y then x # y # ys else y # insort_row x ys)"

definition sort_values :: "'k::linorder game list \<Rightarrow> 'k game list" where
  "sort_values xs = foldr insort_row xs []"

text \<open>\<^verbatim>\<open>x.shift(1)\<close>: every value moves down one place, the first place becomes NaN.\<close>

definition shift1 :: "real option list \<Rightarrow> real option list" where
  "shift1 xs = (if xs = [] then [] else None # butlast xs)"

text \<open>
  The mean of one window with \<^verbatim>\<open>min_periods=1\<close>: the mean of the cells that are not
  NaN, and NaN when there are fewer than one.
\<close>

definition nan_mean :: "real option list \<Rightarrow> real option" where
  "nan_mean zs = (let vs = List.map_filter (\<lambda>z. z) zs
                  in if 1 \<le> length vs then Some (sum_list vs / real (length vs)) else None)"

text \<open>\<^verbatim>\<open>.rolling(w, min_periods=1).mean()\<close>: at place \<open>j\<close> the window is the \<open>w\<close> cells ending at \<open>j\<close>.\<close>

definition rolling_mean :: "nat \<Rightarrow> real option list \<Rightarrow> real option list" where
  "rolling_mean w xs = map (\<lambda>j. nan_mean (drop (Suc j - w) (take (Suc j) xs))) [0..<length xs]"

text \<open>The function applied to each group: \<^verbatim>\<open>lambda x: x.shift(1).rolling(w, min_periods=1).mean()\<close>.\<close>

definition shifted_rolling_mean :: "nat \<Rightarrow> real option list \<Rightarrow> real option list" where
  "shifted_rolling_mean w xs = rolling_mean w (shift1 xs)"

text \<open>
  \<^verbatim>\<open>df.groupby(group_cols, sort=False)\<close>: one group per key in order of first appearance;
  rows with a null in a grouping column belong to no group.
\<close>

definition group_keys :: "'k game list \<Rightarrow> 'k option list list" where
  "group_keys s = rev (remdups (rev (filter (\<lambda>k. None \<notin> set k) (map gkey s))))"

text \<open>
  \<^verbatim>\<open>g.apply(...)\<close> with the group levels dropped from its index: the values computed for
  each group, each paired with the index label of its row. The labels are the positions of
  the rows in the sorted table.
\<close>

definition groupby_apply :: "nat \<Rightarrow> string \<Rightarrow> 'k game list \<Rightarrow> (nat \<times> real option) list" where
  "groupby_apply w c s =
     (let ix = zip [0..<length s] s
      in concat (map (\<lambda>k. let g = filter (\<lambda>(i, r). gkey r = k) ix
                           in zip (map fst g) (shifted_rolling_mean w (map (\<lambda>(i, r). vals r c) g)))
                     (group_keys s)))"

text \<open>The new column, aligned on the index: a row without a computed value gets NaN.\<close>

definition roll_column :: "nat \<Rightarrow> string \<Rightarrow> 'k game list \<Rightarrow> real option list" where
  "roll_column w c s =
     map (\<lambda>i. case map_of (groupby_apply w c s) i of Some v \<Rightarrow> v | None \<Rightarrow> None)
         [0..<length s]"

text \<open>\<^verbatim>\<open>f"{prefix}{w}_{c}"\<close>, with \<^verbatim>\<open>str\<close> of a natural number.\<close>

definition digit_char :: "nat \<Rightarrow> char" where
  "digit_char d = char_of (48 + d)"

fun str_nat :: "nat \<Rightarrow> string" where
  "str_nat n = (if n < 10 then [digit_char n] else str_nat (n div 10) @ [digit_char (n mod 10)])"

declare str_nat.simps [simp del]

definition roll_name :: "string \<Rightarrow> nat \<Rightarrow> string \<Rightarrow> string" where
  "roll_name prefix w c = prefix @ str_nat w @ ''_'' @ c"

definition assign_column :: "string \<Rightarrow> real option list \<Rightarrow> 'k frame \<Rightarrow> 'k frame" where
  "assign_column name col df =
     \<lparr>fcols = (if name \<in> set (fcols df) then fcols df else fcols df @ [name]),
      frows = map (\<lambda>(r, v). r\<lparr>vals := (vals r)(name := v)\<rparr>) (zip (frows df) col)\<rparr>"

text \<open>The loop over the windows for one value column, and \<^verbatim>\<open>rolling_features\<close> itself.\<close>

definition roll_windows :: "string \<Rightarrow> string \<Rightarrow> nat list \<Rightarrow> 'k frame \<Rightarrow> 'k frame" where
  "roll_windows prefix c windows df =
     fold (\<lambda>w d. assign_column (roll_name prefix w c) (roll_column w c (frows d)) d) windows df"

definition rolling_features ::
  "'k::linorder frame \<Rightarrow> string list \<Rightarrow> nat list \<Rightarrow> string \<Rightarrow> 'k frame" where
  "rolling_features df value_cols windows prefix =
     (let df0 = df\<lparr>frows := sort_values (frows df)\<rparr>
      in fold (\<lambda>c d. if c \<notin> set (fcols d) then d else roll_windows prefix c windows d)
           value_cols df0)"

text \<open>The example of the specification: BOS on days 1 to 6, given out of order.\<close>

definition bos_game :: "int \<Rightarrow> real \<Rightarrow> String.literal game" where
  "bos_game d v = \<lparr>gkey = [Some (STR ''BOS'')], gdate = Some d,
                   vals = (\<lambda>_. None)(''goalsFor'' := Some v)\<rparr>"

definition ex_bos :: "String.literal frame" where
  "ex_bos = \<lparr>fcols = [''goalsFor''],
             frows = [bos_game 3 6, bos_game 1 2, bos_game 2 4, bos_game 6 12,
                      bos_game 4 8, bos_game 5 10]\<rparr>"

text \<open>
  The last \<open>n\<close> elements of a list, and the games of the entity of the row at place \<open>p\<close>
  that come before it in the sorted table.
\<close>

definition last_n :: "nat \<Rightarrow> 'a list \<Rightarrow> 'a list" where
  "last_n n xs = drop (length xs - n) xs"

definition prior_games :: "'k game list \<Rightarrow> nat \<Rightarrow> 'k game list" where
  "prior_games s p = filter (\<lambda>r. gkey r = gkey (s ! p)) (take p s)"

text \<open>
  Two tables agree on the past of entity \<open>E\<close> before day \<open>T2\<close> when they have the same
  columns and, row by row, the same keys and dates, and the same cells in every row except
  those of \<open>E\<close> that are dated \<open>T2\<close> or later (or not dated at all).
\<close>

definition may_change :: "'k option list \<Rightarrow> int \<Rightarrow> 'k game \<Rightarrow> bool" where
  "may_change E T2 r \<longleftrightarrow> gkey r = E \<and> (case gdate r of None \<Rightarrow> True | Some d \<Rightarrow> T2 \<le> d)"

definition same_past :: "'k option list \<Rightarrow> int \<Rightarrow> 'k game \<Rightarrow> 'k game \<Rightarrow> bool" where
  "same_past E T2 r r' \<longleftrightarrow>
     gkey r' = gkey r \<and> gdate r' = gdate r \<and> (may_change E T2 r \<or> vals r' = vals r)"

definition frames_agree :: "'k option list \<Rightarrow> int \<Rightarrow> 'k frame \<Rightarrow> 'k frame \<Rightarrow> bool" where
  "frames_agree E T2 d d' \<longleftrightarrow>
     fcols d' = fcols d \<and> list_all2 (same_past E T2) (frows d) (frows d')"

text \<open>The example table with the values of days 4 to 6 changed.\<close>

definition ex_bos_changed :: "String.literal frame" where
  "ex_bos_changed = \<lparr>fcols = [''goalsFor''],
             frows = [bos_game 3 6, bos_game 1 2, bos_game 2 4, bos_game 6 0,
                      bos_game 4 100, bos_game 5 (- 7)]\<rparr>"

text \<open>Reading a decimal numeral back, to tell the names of rolled columns apart.\<close>

definition digit_val :: "char \<Rightarrow> nat" where
  "digit_val c = of_char c - 48"

definition nat_of_str :: "string \<Rightarrow> nat" where
  "nat_of_str s = foldl (\<lambda>a c. 10 * a + digit_val c) 0 s"

text \<open>
  Two invariants of the loops of \<open>rolling_features\<close> with respect to the sorted input
  \<open>s0\<close>: the keys, the dates and the value columns \<open>cs\<close> are those of \<open>s0\<close>; and for
  every pair of a value column and a window in \<open>X\<close>, the column named after the pair holds
  the rolled values of that column of \<open>s0\<close>.
\<close>

definition keeps_sources :: "string list \<Rightarrow> 'k game list \<Rightarrow> 'k game list \<Rightarrow> bool" where
  "keeps_sources cs s0 s \<longleftrightarrow>
     list_all2 (\<lambda>r r'. gkey r' = gkey r \<and> gdate r' = gdate r \<and>
                        list_all (\<lambda>c. vals r' c = vals r c) cs) s0 s"

definition rolled :: "string \<Rightarrow> 'k game list \<Rightarrow> (string \<times> nat) set \<Rightarrow> 'k game list \<Rightarrow> bool" where
  "rolled prefix s0 X s \<longleftrightarrow>
     (\<forall>(c, w)\<in>X. map (\<lambda>r. vals r (roll_name prefix w c)) s = roll_column w c s0)"

section \<open>Theorems\<close>




text \<open>
  Claim C3. For every game, each projected side value is the unweighted average of that side's
  for-prediction and the other side's against-prediction (goals, shots on goal, expected
  goals), and the projected totals of goals and of shots are the sums of the two sides'
  projected values; the projection table has one such row per scheduled game.
\<close>

theorem projector_blending:
  "home_goals (project_game m hx ax) = (m ''y_goalsFor'' hx + m ''y_goalsAgainst'' ax) / 2 \<and>
   away_goals (project_game m hx ax) = (m ''y_goalsFor'' ax + m ''y_goalsAgainst'' hx) / 2 \<and>
   home_sog (project_game m hx ax) =
     (m ''y_shotsOnGoalFor'' hx + m ''y_shotsOnGoalAgainst'' ax) / 2 \<and>
   away_sog (project_game m hx ax) =
     (m ''y_shotsOnGoalFor'' ax + m ''y_shotsOnGoalAgainst'' hx) / 2 \<and>
   home_xg (project_game m hx ax) = (m ''y_xGoalsFor'' hx + m ''y_xGoalsAgainst'' ax) / 2 \<and>
   away_xg (project_game m hx ax) = (m ''y_xGoalsFor'' ax + m ''y_xGoalsAgainst'' hx) / 2 \<and>
   proj_total_goals (project_game m hx ax) =
     home_goals (project_game m hx ax) + away_goals (project_game m hx ax) \<and>
   proj_total_sog (project_game m hx ax) =
     home_sog (project_game m hx ax) + away_sog (project_game m hx ax) \<and>
   map fst (project_games m full) = map fst full \<and>
   map snd (project_games m full) = map (\<lambda>(g, h, a). project_game m h a) full"
proof -
  have "map fst (project_games m full) = map fst full"
    by (induction full) (auto simp: project_games_def)
  moreover have "map snd (project_games m full) = map (\<lambda>(g, h, a). project_game m h a) full"
    by (induction full) (auto simp: project_games_def)
  ultimately show ?thesis
    by (simp add: project_game_def predict_team_def Let_def)
qed

theorem projector_blending_witness:
  "home_goals (project_game ex_models True False) = 3 \<and>
   away_goals (project_game ex_models True False) = 2.6 \<and>
   proj_total_goals (project_game ex_models True False) = 5.6 \<and>
   proj_total_sog (project_game ex_models True False) = 59"
proof -
  note b = projector_blending [of ex_models True False "[]"]
  from b have "home_goals (project_game ex_models True False) =
      (ex_models ''y_goalsFor'' True + ex_models ''y_goalsAgainst'' False) / 2"
    by (rule conjunct1)
  then have hg: "home_goals (project_game ex_models True False) = 3"
    by (simp add: ex_models_def)
  from b have "away_goals (project_game ex_models True False) =
      (ex_models ''y_goalsFor'' False + ex_models ''y_goalsAgainst'' True) / 2"
    by blast
  then have ag: "away_goals (project_game ex_models True False) = 2.6"
    by (simp add: ex_models_def)
  from b have "home_sog (project_game ex_models True False) =
      (ex_models ''y_shotsOnGoalFor'' True + ex_models ''y_shotsOnGoalAgainst'' False) / 2"
    by blast
  then have hs: "home_sog (project_game ex_models True False) = 30"
    by (simp add: ex_models_def)
  from b have "away_sog (project_game ex_models True False) =
      (ex_models ''y_shotsOnGoalFor'' False + ex_models ''y_shotsOnGoalAgainst'' True) / 2"
    by blast
  then have as: "away_sog (project_game ex_models True False) = 29"
    by (simp add: ex_models_def)
  from b have "proj_total_goals (project_game ex_models True False) =
     home_goals (project_game ex_models True False) + away_goals (project_game ex_models True False)"
    by blast
  then have tg: "proj_total_goals (project_game ex_models True False) = 5.6"
    by (simp add: hg ag)
  from b have "proj_total_sog (project_game ex_models True False) =
     home_sog (project_game ex_models True False) + away_sog (project_game ex_models True False)"
    by blast
  then have ts: "proj_total_sog (project_game ex_models True False) = 59"
    by (simp add: hs as)
  from hg ag tg ts show ?thesis by blast
qed




text \<open>
  The steps of the normaliser before the last one add or rewrite columns other than
  \<open>situation\<close>: they keep the rows' number, their situation cells, and whether the table has
  a situation column.
\<close>

lemma keeps_situation_refl: "keeps_situation d d"
  by (simp add: keeps_situation_def)

lemma keeps_situation_trans:
  "keeps_situation a b \<Longrightarrow> keeps_situation b c \<Longrightarrow> keeps_situation a c"
  by (simp add: keeps_situation_def)

lemma keeps_situation_set_column:
  "name \<noteq> ''situation'' \<Longrightarrow> keeps_situation d (set_column name f d)"
  by (auto simp: keeps_situation_def set_column_def)

lemma keeps_situation_alias_column:
  "name \<noteq> ''situation'' \<Longrightarrow> keeps_situation d (alias_column name cands d)"
  by (simp add: alias_column_def keeps_situation_refl keeps_situation_set_column
      split: option.split)

text \<open>
  Claim C10. The table that \<open>standardize_team_game_cols\<close> returns always has a situation
  column and as many rows as its input. When the input has no situation column, every row of
  the result holds "all" there and the situation filter of the scraper keeps every row; when
  the input has one, its cells are kept.
\<close>

theorem situation_default:
  "''situation'' \<in> set (columns (standardize_team_game_cols pgd df)) \<and>
   length (rows (standardize_team_game_cols pgd df)) = length (rows df) \<and>
   (if ''situation'' \<in> set (columns df)
    then map (\<lambda>r. r ''situation'') (rows (standardize_team_game_cols pgd df)) =
           map (\<lambda>r. r ''situation'') (rows df)
    else map (\<lambda>r. r ''situation'') (rows (standardize_team_game_cols pgd df)) =
           replicate (length (rows df)) (Str ''all'') \<and>
         situation_filter repr (standardize_team_game_cols pgd df) =
           Inr (standardize_team_game_cols pgd df))"
proof -
  define d1 where "d1 = alias_column ''team'' [''playerTeam'', ''teamAbbrev'', ''teamCode''] df"
  define d2 where "d2 = alias_column ''team_opp''
                 [''opposingTeam'', ''opponentTeam'', ''oppTeam'', ''opponent''] d1"
  define d3 where "d3 = alias_column ''gameId'' [''game_id'', ''gamePk'', ''id''] d2"
  define d4 where "d4 = (if ''gameDate'' \<in> set (columns d3)
                then set_column ''gameDate'' (\<lambda>r. pgd (r ''gameDate'')) d3
                else (case first_existing_col (columns d3) [''date''] of
                        Some c \<Rightarrow> set_column ''gameDate'' (\<lambda>r. pgd (r c)) d3
                      | None \<Rightarrow> d3))"
  define d5 where "d5 = alias_column ''home_or_away'' [''homeOrAway'', ''homeAway''] d4"
  define d6 where "d6 = (if ''situation'' \<notin> set (columns d5)
                then set_column ''situation'' (\<lambda>r. Str ''all'') d5 else d5)"
  have out: "standardize_team_game_cols pgd df = d6"
    by (simp add: standardize_team_game_cols_def Let_def d1_def d2_def d3_def d4_def d5_def
        d6_def)
  have k1: "keeps_situation df d1"
    unfolding d1_def by (rule keeps_situation_alias_column) simp
  have k2: "keeps_situation d1 d2"
    unfolding d2_def by (rule keeps_situation_alias_column) simp
  have k3: "keeps_situation d2 d3"
    unfolding d3_def by (rule keeps_situation_alias_column) simp
  have k4: "keeps_situation d3 d4"
    unfolding d4_def
    by (simp add: keeps_situation_refl keeps_situation_set_column split: option.split)
  have k5: "keeps_situation d4 d5"
    unfolding d5_def by (rule keeps_situation_alias_column) simp
  have k: "keeps_situation df d5"
    using k1 k2 k3 k4 k5 by (blast intro: keeps_situation_trans)
  have a: "''situation'' \<in> set (columns d6)"
    by (simp add: d6_def set_column_def)
  have b: "length (rows d6) = length (rows df)"
    using k by (simp add: d6_def set_column_def keeps_situation_def)
  show ?thesis
  proof (cases "''situation'' \<in> set (columns df)")
    case True
    then have "d6 = d5" using k by (simp add: d6_def keeps_situation_def)
    then have "map (\<lambda>r. r ''situation'') (rows d6) = map (\<lambda>r. r ''situation'') (rows df)"
      using k by (simp add: keeps_situation_def)
    with True a b out show ?thesis by simp
  next
    case False
    then have e: "d6 = set_column ''situation'' (\<lambda>r. Str ''all'') d5"
      using k by (simp add: d6_def keeps_situation_def)
    have c: "map (\<lambda>r. r ''situation'') (rows d6) = replicate (length (rows df)) (Str ''all'')"
      using b unfolding e by (simp add: set_column_def o_def map_replicate_const)
    have low: "lower ''all'' = ''all''"
      by (simp add: lower_def lower_char_def)
    have "\<forall>r\<in>set (rows d6). r ''situation'' = Str ''all''"
      unfolding e by (simp add: set_column_def)
    then have "filter (\<lambda>r. lower (astype_str repr (r ''situation'')) = ''all'') (rows d6) = rows d6"
      by (auto simp: astype_str_def low filter_id_conv)
    then have f: "situation_filter repr d6 = Inr d6"
      using a by (simp add: situation_filter_def getcol_def)
    from False a b c f out show ?thesis by simp
  qed
qed

theorem situation_default_witness:
  "map (\<lambda>r. r ''situation'') (rows (standardize_team_game_cols id ex_raw_table)) =
     [Str ''all'', Str ''all''] \<and>
   situation_filter (\<lambda>_. ''0'') (standardize_team_game_cols id ex_raw_table) =
     Inr (standardize_team_game_cols id ex_raw_table)"
proof -
  have n: "''situation'' \<notin> set (columns ex_raw_table)"
    by (simp add: ex_raw_table_def)
  have l: "length (rows ex_raw_table) = 2"
    by (simp add: ex_raw_table_def)
  have r: "replicate 2 (Str ''all'' :: nat cell) = [Str ''all'', Str ''all'']"
    by (simp add: numeral_2_eq_2)
  from situation_default [of id ex_raw_table "\<lambda>_. ''0''"] n l r show ?thesis
    by simp
qed

lemma first_existing_col_Some:
  "first_existing_col cols cands = Some c \<Longrightarrow> c \<in> set cols \<and> c \<in> set cands"
  by (induction cands) (auto split: if_splits)

lemma first_existing_col_None:
  "first_existing_col cols cands = None \<longleftrightarrow> set cands \<inter> set cols = {}"
  by (induction cands) auto

lemma add_columns_superset: "set cols \<subseteq> set (add_columns cols new)"
proof -
  have "set cs \<subseteq> set (fold (\<lambda>n cs. if n \<in> set cs then cs else cs @ [n]) new cs)" for cs
  proof (induction new arbitrary: cs)
    case Nil
    show ?case by simp
  next
    case (Cons n new)
    have "set cs \<subseteq> set (if n \<in> set cs then cs else cs @ [n])" by auto
    also have "\<dots> \<subseteq> set (fold (\<lambda>n cs. if n \<in> set cs then cs else cs @ [n]) new
        (if n \<in> set cs then cs else cs @ [n]))"
      by (rule Cons.IH)
    finally show ?case by simp
  qed
  then show ?thesis by (simp add: add_columns_def)
qed

lemma sort_values_check_None:
  "sort_values_check cols keys = None \<longleftrightarrow> set keys \<subseteq> set cols"
proof (cases "filter (\<lambda>k. k \<notin> set cols) keys")
  case Nil
  then show ?thesis by (auto simp: sort_values_check_def filter_empty_conv)
next
  case (Cons k ks)
  then have "k \<in> set (filter (\<lambda>k. k \<notin> set cols) keys)" by simp
  then have "\<not> set keys \<subseteq> set cols" by auto
  with Cons show ?thesis by (simp add: sort_values_check_def)
qed

text \<open>
  Claim C6, the part that fails: a goalie table with a playerId column and no alias of the
  ice-time column is no error; the section rolls the columns it has.
\<close>

theorem required_column_counterexample:
  "pick_col [''playerId'', ''team'', ''gameDate'', ''goalsAgainst''] TOI_CANDIDATES = None \<and>
   goalie_section [''playerId'', ''team'', ''gameDate'', ''goalsAgainst''] =
     Inr [''goalsAgainst'', ''save_pct'']"
  by (simp add: goalie_section_def TOI_CANDIDATES_def PID_CANDIDATES_def add_columns_def
      sort_values_check_def)

text \<open>
  Claim C6, amended. A skater table with no alias of playerId or no alias of the ice-time
  column aborts the build with a RuntimeError, and so does a goalie table with no alias of
  playerId. For a table that has the columns team and gameDate these are the only fatal
  absences: the skater section succeeds exactly when both aliases are found, the goalie
  section exactly when a playerId alias is found, with or without an ice-time column.
\<close>

theorem required_columns:
  "(pick_col cols PID_CANDIDATES = None \<or> pick_col cols TOI_CANDIDATES = None \<longrightarrow>
      skater_section cols = Inl (RuntimeError ''Skater playerId or TOI column not found.'')) \<and>
   (pick_col cols PID_CANDIDATES = None \<longrightarrow>
      goalie_section cols = Inl (RuntimeError ''Goalie playerId column not found.'')) \<and>
   (''team'' \<in> set cols \<and> ''gameDate'' \<in> set cols \<longrightarrow>
      ((\<exists>r. skater_section cols = Inr r) \<longleftrightarrow>
         pick_col cols PID_CANDIDATES \<noteq> None \<and> pick_col cols TOI_CANDIDATES \<noteq> None) \<and>
      ((\<exists>r. goalie_section cols = Inr r) \<longleftrightarrow> pick_col cols PID_CANDIDATES \<noteq> None))"
proof -
  have sk_err: "skater_section cols = Inl (RuntimeError ''Skater playerId or TOI column not found.'')"
    if "pick_col cols PID_CANDIDATES = None \<or> pick_col cols TOI_CANDIDATES = None"
    using that by (auto simp: skater_section_def split: option.splits)
  have go_err: "goalie_section cols = Inl (RuntimeError ''Goalie playerId column not found.'')"
    if "pick_col cols PID_CANDIDATES = None"
    using that by (simp add: goalie_section_def)
  have chk: "sort_values_check (add_columns cols new) [''team'', p, ''gameDate''] = None"
    if "''team'' \<in> set cols" "''gameDate'' \<in> set cols" "pick_col cols PID_CANDIDATES = Some p"
    for new p
    using that add_columns_superset [of cols new] first_existing_col_Some [of cols PID_CANDIDATES p]
    by (auto simp: sort_values_check_None)
  have sk_ok: "\<exists>r. skater_section cols = Inr r"
    if "''team'' \<in> set cols" "''gameDate'' \<in> set cols"
      "pick_col cols PID_CANDIDATES \<noteq> None" "pick_col cols TOI_CANDIDATES \<noteq> None"
  proof -
    from that obtain p t where pt: "pick_col cols PID_CANDIDATES = Some p"
      "pick_col cols TOI_CANDIDATES = Some t" by auto
    show ?thesis
      using pt chk [OF that(1,2) pt(1)] by (simp add: skater_section_def Let_def)
  qed
  have go_ok: "\<exists>r. goalie_section cols = Inr r"
    if "''team'' \<in> set cols" "''gameDate'' \<in> set cols" "pick_col cols PID_CANDIDATES \<noteq> None"
  proof -
    from that obtain p where p: "pick_col cols PID_CANDIDATES = Some p" by auto
    show ?thesis
      using p chk [OF that(1,2) p] by (simp add: goalie_section_def Let_def)
  qed
  have sk_iff: "(\<exists>r. skater_section cols = Inr r) \<longleftrightarrow>
         pick_col cols PID_CANDIDATES \<noteq> None \<and> pick_col cols TOI_CANDIDATES \<noteq> None"
    if "''team'' \<in> set cols" "''gameDate'' \<in> set cols"
  proof
    assume "\<exists>r. skater_section cols = Inr r"
    then show "pick_col cols PID_CANDIDATES \<noteq> None \<and> pick_col cols TOI_CANDIDATES \<noteq> None"
      using sk_err by fastforce
  next
    assume "pick_col cols PID_CANDIDATES \<noteq> None \<and> pick_col cols TOI_CANDIDATES \<noteq> None"
    then show "\<exists>r. skater_section cols = Inr r" using sk_ok that by blast
  qed
  have go_iff: "(\<exists>r. goalie_section cols = Inr r) \<longleftrightarrow> pick_col cols PID_CANDIDATES \<noteq> None"
    if "''team'' \<in> set cols" "''gameDate'' \<in> set cols"
  proof
    assume "\<exists>r. goalie_section cols = Inr r"
    then show "pick_col cols PID_CANDIDATES \<noteq> None"
      using go_err by fastforce
  next
    assume "pick_col cols PID_CANDIDATES \<noteq> None"
    then show "\<exists>r. goalie_section cols = Inr r" using go_ok that by blast
  qed
  show ?thesis
    using sk_err go_err sk_iff go_iff by blast
qed

theorem required_columns_witness:
  "skater_section [''playerId'', ''team'', ''gameDate'', ''goals''] =
     Inl (RuntimeError ''Skater playerId or TOI column not found.'') \<and>
   goalie_section [''team'', ''gameDate'', ''icetime''] =
     Inl (RuntimeError ''Goalie playerId column not found.'') \<and>
   (\<exists>r. skater_section [''id'', ''team'', ''gameDate'', ''toi''] = Inr r) \<and>
   (\<exists>r. goalie_section [''id'', ''team'', ''gameDate''] = Inr r)"
proof -
  have a: "pick_col [''playerId'', ''team'', ''gameDate'', ''goals''] TOI_CANDIDATES = None"
    by (simp add: TOI_CANDIDATES_def)
  have b: "pick_col [''team'', ''gameDate'', ''icetime''] PID_CANDIDATES = None"
    by (simp add: PID_CANDIDATES_def)
  have c: "pick_col [''id'', ''team'', ''gameDate'', ''toi''] PID_CANDIDATES \<noteq> None"
    "pick_col [''id'', ''team'', ''gameDate'', ''toi''] TOI_CANDIDATES \<noteq> None"
    "''team'' \<in> set [''id'', ''team'', ''gameDate'', ''toi'']"
    "''gameDate'' \<in> set [''id'', ''team'', ''gameDate'', ''toi'']"
    by (simp_all add: PID_CANDIDATES_def TOI_CANDIDATES_def)
  have d: "pick_col [''id'', ''team'', ''gameDate''] PID_CANDIDATES \<noteq> None"
    "''team'' \<in> set [''id'', ''team'', ''gameDate'']"
    "''gameDate'' \<in> set [''id'', ''team'', ''gameDate'']"
    by (simp_all add: PID_CANDIDATES_def)
  from a required_columns [of "[''playerId'', ''team'', ''gameDate'', ''goals'']"]
  have 1: "skater_section [''playerId'', ''team'', ''gameDate'', ''goals''] =
     Inl (RuntimeError ''Skater playerId or TOI column not found.'')" by blast
  from b required_columns [of "[''team'', ''gameDate'', ''icetime'']"]
  have 2: "goalie_section [''team'', ''gameDate'', ''icetime''] =
     Inl (RuntimeError ''Goalie playerId column not found.'')" by blast
  from c required_columns [of "[''id'', ''team'', ''gameDate'', ''toi'']"]
  have 3: "\<exists>r. skater_section [''id'', ''team'', ''gameDate'', ''toi''] = Inr r" by blast
  from d required_columns [of "[''id'', ''team'', ''gameDate'']"]
  have 4: "\<exists>r. goalie_section [''id'', ''team'', ''gameDate''] = Inr r" by blast
  from 1 2 3 4 show ?thesis by blast
qed




lemma merge_left_retains:
  assumes "l \<in> set (rows L)"
  shows "\<exists>out\<in>set (rows (merge_left null left_on right_on new L R)).
           \<forall>c. c \<notin> set (map fst new) \<longrightarrow> out c = l c"
proof -
  let ?ms = "filter (row_match left_on right_on l) (rows R)"
  let ?o = "(case ?ms of [] \<Rightarrow> [attach new l (\<lambda>_. null)] | ms \<Rightarrow> map (attach new l) ms)"
  have sub: "set ?o \<subseteq> set (rows (merge_left null left_on right_on new L R))"
    using assms by (auto simp: merge_left_def)
  have att: "c \<notin> set (map fst new) \<Longrightarrow> attach new l r c = l c" for r c
    by (simp add: attach_def map_of_eq_None_iff [THEN iffD2])
  have "\<exists>out\<in>set ?o. \<forall>c. c \<notin> set (map fst new) \<longrightarrow> out c = l c"
  proof (cases ?ms)
    case Nil
    then show ?thesis using att by simp
  next
    case (Cons m ms)
    then show ?thesis using att by simp
  qed
  with sub show ?thesis by blast
qed
















lemmas ex_train_defs = train_main_def dropna_season_def holdout_of_def List.map_filter_simps
  train_target_def train_split_def test_split_def try_candidate_def candidates_def
  ex_model_table_def

text \<open>
  Claim C8, where the code fails it. The search for the best candidate starts from the bound
  1e18 with no candidate chosen. On a target with non-empty splits whose three candidates
  all have a holdout MAE of 2e18, no candidate is ever chosen and unpacking the missing
  choice raises TypeError: no model is saved and no report is written.
\<close>

theorem selection_sentinel_failure:
  "train_split (dropna_season ex_model_table) 2023 ''y_goalsFor'' \<noteq> [] \<and>
   test_split (dropna_season ex_model_table) 2023 ''y_goalsFor'' \<noteq> [] \<and>
   train_main ex_fit_eval_huge 3 ex_model_table [''y_goalsFor''] = Inl TypeError"
  by (simp add: ex_train_defs ex_fit_eval_huge_def Let_def)

text \<open>With ordinary errors the run of the example saves the candidate of least MAE.\<close>

lemma ex_selection:
  "train_main ex_fit_eval 3 ex_model_table [''y_goalsFor''] =
     Inr \<lparr>report_rows =
            [\<lparr>r_target = ''y_goalsFor'', r_model = ''ridge'', r_holdout_season = 2023,
              r_MAE = 1.2, r_RMSE = 1.5, r_n_train = 1, r_n_test = 1, r_n_features = 3\<rparr>,
             \<lparr>r_target = ''y_goalsFor'', r_model = ''hgb'', r_holdout_season = 2023,
              r_MAE = 0.9, r_RMSE = 1.5, r_n_train = 1, r_n_test = 1, r_n_features = 3\<rparr>,
             \<lparr>r_target = ''y_goalsFor'', r_model = ''rf'', r_holdout_season = 2023,
              r_MAE = 1.0, r_RMSE = 1.5, r_n_train = 1, r_n_test = 1, r_n_features = 3\<rparr>],
          saved = [(''team_y_goalsFor.joblib'', ''hgb'')]\<rparr>"
  by (simp add: ex_train_defs ex_fit_eval_def Let_def)

text \<open>
  The loop over the candidates adds one report row per candidate, in their order, and keeps
  the first candidate of least MAE among those whose MAE is below the starting bound.
\<close>

lemma fold_try_candidate:
  "case fold (try_candidate fit_eval n h y tr te) cs (rep, best, bm) of
     (rep1, best1, bm1) \<Rightarrow>
       map r_model rep1 = map r_model rep @ cs \<and>
       map r_target rep1 = map r_target rep @ replicate (length cs) y \<and>
       (if \<exists>c\<in>set cs. fst (snd (fit_eval c y tr te)) < bm
        then \<exists>c\<in>set cs. best1 = Some (c, fit_eval c y tr te) \<and>
               bm1 = fst (snd (fit_eval c y tr te)) \<and> bm1 < bm \<and>
               (\<forall>d\<in>set cs. bm1 \<le> fst (snd (fit_eval d y tr te)))
        else best1 = best \<and> bm1 = bm)"
proof (induction cs arbitrary: rep best bm)
  case Nil
  show ?case by simp
next
  case (Cons c cs)
  obtain m a r where fe: "fit_eval c y tr te = (m, a, r)" by (cases "fit_eval c y tr te")
  define row where "row = \<lparr>r_target = y, r_model = c, r_holdout_season = h,
      r_MAE = a, r_RMSE = r, r_n_train = length tr, r_n_test = length te, r_n_features = n\<rparr>"
  have rm: "r_model row = c" "r_target row = y" by (simp_all add: row_def)
  show ?case
  proof (cases "a < bm")
    case True
    have st: "try_candidate fit_eval n h y tr te c (rep, best, bm) =
        (rep @ [row], Some (c, m, a, r), a)"
      using True by (simp add: try_candidate_def fe row_def)
    obtain rep1 best1 bm1 where res:
      "fold (try_candidate fit_eval n h y tr te) cs (rep @ [row], Some (c, m, a, r), a) =
         (rep1, best1, bm1)"
      by (cases "fold (try_candidate fit_eval n h y tr te) cs (rep @ [row], Some (c, m, a, r), a)")
    from Cons.IH [where rep = "rep @ [row]" and best = "Some (c, m, a, r)" and bm = a] res
    have ih: "map r_model rep1 = map r_model (rep @ [row]) @ cs"
      "map r_target rep1 = map r_target (rep @ [row]) @ replicate (length cs) y"
      "(if \<exists>c\<in>set cs. fst (snd (fit_eval c y tr te)) < a
        then \<exists>c\<in>set cs. best1 = Some (c, fit_eval c y tr te) \<and>
               bm1 = fst (snd (fit_eval c y tr te)) \<and> bm1 < a \<and>
               (\<forall>d\<in>set cs. bm1 \<le> fst (snd (fit_eval d y tr te)))
        else best1 = Some (c, m, a, r) \<and> bm1 = a)"
      by simp_all
    have sel: "\<exists>c'\<in>set (c # cs). best1 = Some (c', fit_eval c' y tr te) \<and>
               bm1 = fst (snd (fit_eval c' y tr te)) \<and> bm1 < bm \<and>
               (\<forall>d\<in>set (c # cs). bm1 \<le> fst (snd (fit_eval d y tr te)))"
    proof (cases "\<exists>c\<in>set cs. fst (snd (fit_eval c y tr te)) < a")
      case True
      with ih(3) obtain c' where "c' \<in> set cs" "best1 = Some (c', fit_eval c' y tr te)"
        "bm1 = fst (snd (fit_eval c' y tr te))" "bm1 < a"
        "\<forall>d\<in>set cs. bm1 \<le> fst (snd (fit_eval d y tr te))"
        by auto
      with \<open>a < bm\<close> fe show ?thesis by (intro bexI [of _ c']) auto
    next
      case False
      with ih(3) have "best1 = Some (c, m, a, r)" "bm1 = a" by auto
      with False \<open>a < bm\<close> fe show ?thesis by (intro bexI [of _ c]) (auto simp: not_less)
    qed
    have ex: "\<exists>c'\<in>set (c # cs). fst (snd (fit_eval c' y tr te)) < bm"
      using True fe by auto
    show ?thesis
      using ih(1,2) sel ex by (simp add: st res rm replicate_app_Cons_same)
  next
    case False
    have st: "try_candidate fit_eval n h y tr te c (rep, best, bm) = (rep @ [row], best, bm)"
      using False by (simp add: try_candidate_def fe row_def)
    obtain rep1 best1 bm1 where res:
      "fold (try_candidate fit_eval n h y tr te) cs (rep @ [row], best, bm) = (rep1, best1, bm1)"
      by (cases "fold (try_candidate fit_eval n h y tr te) cs (rep @ [row], best, bm)")
    from Cons.IH [where rep = "rep @ [row]" and best = best and bm = bm] res
    have ih: "map r_model rep1 = map r_model (rep @ [row]) @ cs"
      "map r_target rep1 = map r_target (rep @ [row]) @ replicate (length cs) y"
      "(if \<exists>c\<in>set cs. fst (snd (fit_eval c y tr te)) < bm
        then \<exists>c\<in>set cs. best1 = Some (c, fit_eval c y tr te) \<and>
               bm1 = fst (snd (fit_eval c y tr te)) \<and> bm1 < bm \<and>
               (\<forall>d\<in>set cs. bm1 \<le> fst (snd (fit_eval d y tr te)))
        else best1 = best \<and> bm1 = bm)"
      by simp_all
    show ?thesis
    proof (cases "\<exists>c\<in>set cs. fst (snd (fit_eval c y tr te)) < bm")
      case True
      with ih(3) obtain c' where c': "c' \<in> set cs" "best1 = Some (c', fit_eval c' y tr te)"
        "bm1 = fst (snd (fit_eval c' y tr te))" "bm1 < bm"
        "\<forall>d\<in>set cs. bm1 \<le> fst (snd (fit_eval d y tr te))"
        by auto
      have sel: "\<exists>c'\<in>set (c # cs). best1 = Some (c', fit_eval c' y tr te) \<and>
               bm1 = fst (snd (fit_eval c' y tr te)) \<and> bm1 < bm \<and>
               (\<forall>d\<in>set (c # cs). bm1 \<le> fst (snd (fit_eval d y tr te)))"
        using c' False fe by (intro bexI [of _ c']) auto
      have ex: "\<exists>c'\<in>set (c # cs). fst (snd (fit_eval c' y tr te)) < bm"
        using True by auto
      show ?thesis
        using ih(1,2) sel ex by (simp add: st res rm replicate_app_Cons_same)
    next
      case F2: False
      with ih(3) have same: "best1 = best" "bm1 = bm" by auto
      have nex: "\<not> (\<exists>c'\<in>set (c # cs). fst (snd (fit_eval c' y tr te)) < bm)"
        using F2 False fe by auto
      show ?thesis
        using ih(1,2) same nex by (simp add: st res rm replicate_app_Cons_same)
    qed
  qed
qed

text \<open>
  Hence, on a target with non-empty splits for which some candidate has a holdout MAE below
  1e18, the model saved is that of a candidate of least MAE, and the report gains one row per
  candidate.
\<close>

lemma selection_below_bound:
  assumes ne: "train_split df h y \<noteq> []" "test_split df h y \<noteq> []"
    and lt: "\<exists>c\<in>set candidates.
       fst (snd (fit_eval c y (train_split df h y) (test_split df h y))) < 1000000000000000000"
  shows "\<exists>c\<in>set candidates. \<exists>rep.
     train_target fit_eval n h df y st =
       Inr \<lparr>report_rows = rep,
            saved = saved st @ [(''team_'' @ y @ ''.joblib'',
                       fst (fit_eval c y (train_split df h y) (test_split df h y)))]\<rparr> \<and>
     (\<forall>d\<in>set candidates.
        fst (snd (fit_eval c y (train_split df h y) (test_split df h y)))
          \<le> fst (snd (fit_eval d y (train_split df h y) (test_split df h y)))) \<and>
     map r_model rep = map r_model (report_rows st) @ candidates \<and>
     map r_target rep = map r_target (report_rows st) @ replicate (length candidates) y"
proof -
  let ?tr = "train_split df h y" and ?te = "test_split df h y"
  obtain rep1 best1 bm1 where res:
    "fold (try_candidate fit_eval n h y ?tr ?te) candidates
       (report_rows st, None, 1000000000000000000) = (rep1, best1, bm1)"
    by (cases "fold (try_candidate fit_eval n h y ?tr ?te) candidates
       (report_rows st, None, 1000000000000000000)")
  from fold_try_candidate [where fit_eval = fit_eval and n = n and h = h and y = y
      and tr = ?tr and te = ?te and cs = candidates and rep = "report_rows st"
      and best = None and bm = 1000000000000000000] res lt
  obtain c where c: "c \<in> set candidates" "best1 = Some (c, fit_eval c y ?tr ?te)"
    "bm1 = fst (snd (fit_eval c y ?tr ?te))"
    "\<forall>d\<in>set candidates. bm1 \<le> fst (snd (fit_eval d y ?tr ?te))"
    and rp: "map r_model rep1 = map r_model (report_rows st) @ candidates"
    "map r_target rep1 = map r_target (report_rows st) @ replicate (length candidates) y"
    by auto
  obtain m a r where fe: "fit_eval c y ?tr ?te = (m, a, r)" by (cases "fit_eval c y ?tr ?te")
  have "train_target fit_eval n h df y st =
      Inr \<lparr>report_rows = rep1, saved = saved st @ [(''team_'' @ y @ ''.joblib'', m)]\<rparr>"
    using ne by (simp add: train_target_def Let_def res c(2) fe)
  with c rp fe show ?thesis
    by (intro bexI [of _ c] exI [of _ rep1]) auto
qed

text \<open>The order of \<open>sort_values\<close> is total and transitive, so the sorted table is sorted.\<close>

lemma cell_lt_irrefl: "\<not> cell_lt x x"
  by (cases x) simp_all

lemma cell_lt_trans: "cell_lt x y \<Longrightarrow> cell_lt y z \<Longrightarrow> cell_lt x z"
  by (cases x; cases y; cases z) auto

lemma cell_lt_total: "cell_lt x y \<or> x = y \<or> cell_lt y x"
  by (cases x; cases y) auto

lemma keys_lt_irrefl: "\<not> keys_lt xs xs"
  by (induction xs) (simp_all add: cell_lt_irrefl)

lemma keys_lt_trans: "keys_lt xs ys \<Longrightarrow> keys_lt ys zs \<Longrightarrow> keys_lt xs zs"
proof (induction xs ys arbitrary: zs rule: keys_lt.induct)
  case (1 x xs y ys)
  then obtain z zs' where zs: "zs = z # zs'" by (cases zs) auto
  from 1 show ?case
    unfolding zs using cell_lt_trans [of x y z] by auto
next
  case (2 y ys)
  then show ?case by (cases zs) auto
next
  case (3 xs)
  then show ?case by simp
qed

lemma keys_lt_total: "keys_lt xs ys \<or> xs = ys \<or> keys_lt ys xs"
proof (induction xs arbitrary: ys)
  case Nil
  show ?case by (cases ys) auto
next
  case (Cons x xs)
  show ?case
  proof (cases ys)
    case Nil
    then show ?thesis by simp
  next
    case (Cons y ys')
    with Cons.IH [of ys'] cell_lt_total [of x y] show ?thesis by auto
  qed
qed

lemma row_le_total: "row_le a b \<or> row_le b a"
  using keys_lt_total [of "gkey a" "gkey b"] cell_lt_trans [of "gdate a" "gdate b" "gdate a"]
    cell_lt_irrefl [of "gdate a"]
  by (auto simp: row_le_def)

lemma row_le_trans: "row_le a b \<Longrightarrow> row_le b c \<Longrightarrow> row_le a c"
proof -
  assume ab: "row_le a b" and bc: "row_le b c"
  have dates: "\<not> cell_lt (gdate c) (gdate a)"
    if "\<not> cell_lt (gdate b) (gdate a)" "\<not> cell_lt (gdate c) (gdate b)"
    using that cell_lt_total [of "gdate a" "gdate b"] cell_lt_total [of "gdate b" "gdate c"]
      cell_lt_trans [of "gdate a" "gdate b" "gdate c"] cell_lt_irrefl [of "gdate a"]
      cell_lt_trans [of "gdate c" "gdate a" "gdate b"]
    by (metis cell_lt_trans)
  from ab bc show ?thesis
    unfolding row_le_def using keys_lt_trans [of "gkey a" "gkey b" "gkey c"] dates
    by auto
qed

lemma set_insort_row: "set (insort_row x xs) = insert x (set xs)"
  by (induction xs) auto

lemma sorted_insort_row:
  "sorted_wrt row_le xs \<Longrightarrow> sorted_wrt row_le (insort_row x xs)"
proof (induction xs)
  case Nil
  show ?case by simp
next
  case (Cons y ys)
  show ?case
  proof (cases "row_le x y")
    case True
    have "\<forall>z\<in>set ys. row_le x z"
      using Cons.prems True by (auto intro: row_le_trans)
    with True Cons.prems show ?thesis by simp
  next
    case False
    then have "row_le y x" using row_le_total [of x y] by simp
    with False Cons show ?thesis by (auto simp: set_insort_row)
  qed
qed

lemma sorted_sort_values: "sorted_wrt row_le (sort_values xs)"
  unfolding sort_values_def by (induction xs) (simp_all add: sorted_insort_row)

lemma length_insort_row: "length (insort_row x xs) = Suc (length xs)"
  by (induction xs) auto

lemma length_sort_values: "length (sort_values xs) = length xs"
  unfolding sort_values_def by (induction xs) (simp_all add: length_insort_row)

text \<open>Sorting commutes with a change of the rows that keeps their keys and dates.\<close>

lemma insort_row_rel:
  assumes "list_all2 R xs ys" and "R x y"
    and "\<And>a b. R a b \<Longrightarrow> gkey b = gkey a \<and> gdate b = gdate a"
  shows "list_all2 R (insort_row x xs) (insort_row y ys)"
  using assms(1)
proof (induction rule: list_all2_induct)
  case Nil
  show ?case using assms(2) by simp
next
  case (Cons a as b bs)
  have "row_le x a = row_le y b"
    using assms(3) [OF assms(2)] assms(3) [OF Cons.hyps(1)] by (simp add: row_le_def)
  with Cons assms(2) show ?case by simp
qed

lemma sort_values_rel:
  assumes "list_all2 R xs ys"
    and "\<And>a b. R a b \<Longrightarrow> gkey b = gkey a \<and> gdate b = gdate a"
  shows "list_all2 R (sort_values xs) (sort_values ys)"
  using assms(1) unfolding sort_values_def
proof (induction rule: list_all2_induct)
  case Nil
  show ?case by simp
next
  case (Cons a as b bs)
  then show ?case by (simp add: insort_row_rel [OF _ _ assms(2)])
qed

text \<open>
  The value that the function of a group gives at place \<open>j\<close>: the mean of the values that
  are not NaN among the last \<open>w\<close> of the \<open>j\<close> values before it.
\<close>

lemma nan_mean_None_Cons: "nan_mean (None # zs) = nan_mean zs"
  by (simp add: nan_mean_def List.map_filter_simps)

lemma shifted_rolling_mean_nth:
  assumes "j < length xs"
  shows "shifted_rolling_mean w xs ! j = nan_mean (last_n w (take j xs))"
proof -
  from assms have ne: "xs \<noteq> []" by auto
  have len: "length (shift1 xs) = length xs"
    using ne by (simp add: shift1_def)
  have tk: "take (Suc j) (shift1 xs) = None # take j xs"
    using assms ne by (simp add: shift1_def take_butlast)
  have "shifted_rolling_mean w xs ! j = nan_mean (drop (Suc j - w) (None # take j xs))"
    using assms by (simp add: shifted_rolling_mean_def rolling_mean_def len tk)
  also have "\<dots> = nan_mean (last_n w (take j xs))"
  proof (cases "w \<le> j")
    case True
    show ?thesis
    proof (cases "w = 0")
      case True
      then show ?thesis using assms by (simp add: last_n_def)
    next
      case False
      with True have "Suc j - w = Suc (j - w)" by simp
      then show ?thesis using assms by (simp add: last_n_def)
    qed
  next
    case False
    then have "Suc j - w = 0" "j - w = 0" by simp_all
    then show ?thesis using assms by (simp add: last_n_def nan_mean_None_Cons)
  qed
  finally show ?thesis .
qed

lemma map_of_zip_at:
  assumes "p \<notin> set A" and "length out = length (A @ p # B)"
  shows "map_of (zip (A @ p # B) out) p = Some (out ! length A)"
  using assms
proof (induction A arbitrary: out)
  case Nil
  then show ?case by (cases out) auto
next
  case (Cons a A)
  then show ?case by (cases out) auto
qed

lemma filter_zip_upt_split:
  assumes "p < length s"
  shows "zip [0..<length s] s =
           zip [0..<p] (take p s) @ (p, s ! p) # zip [Suc p..<length s] (drop (Suc p) s)"
proof -
  have "[0..<length s] = [0..<p] @ p # [Suc p..<length s]"
    using assms by (metis le_add1 less_imp_add_positive upt_add_eq_append upt_conv_Cons
        add_cancel_left_left less_eq_nat.simps(1) plus_nat.add_0)
  moreover have "s = take p s @ s ! p # drop (Suc p) s"
    using assms by (simp add: id_take_nth_drop)
  ultimately have "zip [0..<length s] s =
      zip ([0..<p] @ p # [Suc p..<length s]) (take p s @ s ! p # drop (Suc p) s)"
    by simp
  also have "\<dots> = zip [0..<p] (take p s) @ zip (p # [Suc p..<length s]) (s ! p # drop (Suc p) s)"
    using assms by (subst zip_append) simp_all
  finally show ?thesis by simp
qed

lemma fst_filter_zip_upt:
  "set (map fst (filter (\<lambda>(i, r). Q r) (zip [a..<b] rs))) \<subseteq> {a..<b}"
  by (auto dest: set_zip_leftD)

lemma snd_filter_zip:
  "length is = length rs \<Longrightarrow>
   map snd (filter (\<lambda>(i, r). Q r) (zip is rs)) = filter Q rs"
proof (induction "is" rs rule: list_induct2)
  case Nil
  show ?case by simp
next
  case (Cons i "is" r rs)
  then show ?case by simp
qed

lemma nth_in_filter_zip:
  assumes "(i, r) \<in> set (filter (\<lambda>(i, r). Q r) (zip [0..<length s] s))"
  shows "i < length s \<and> r = s ! i \<and> Q (s ! i)"
proof -
  from assms have m: "(i, r) \<in> set (zip [0..<length s] s)" and q: "Q r" by auto
  from m obtain n where "n < length s" "[0..<length s] ! n = i" "s ! n = r"
    by (auto simp: set_zip)
  with q show ?thesis by auto
qed

text \<open>The block of values that \<open>groupby_apply\<close> computes for the group of key \<open>k\<close>.\<close>

lemma group_block_at:
  assumes p: "p < length s" and k: "gkey (s ! p) = k"
  defines "g \<equiv> filter (\<lambda>(i, r). gkey r = k) (zip [0..<length s] s)"
  shows "map_of (zip (map fst g) (shifted_rolling_mean w (map (\<lambda>(i, r). vals r c) g))) p =
         Some (nan_mean (last_n w (map (\<lambda>r. vals r c) (prior_games s p))))"
proof -
  let ?Q = "\<lambda>r. gkey r = k"
  let ?P = "\<lambda>(i, r). gkey r = k"
  let ?A = "filter ?P (zip [0..<p] (take p s))"
  let ?B = "filter ?P (zip [Suc p..<length s] (drop (Suc p) s))"
  have g: "g = ?A @ (p, s ! p) # ?B"
    unfolding g_def filter_zip_upt_split [OF p] using k by simp
  have fstg: "map fst g = map fst ?A @ p # map fst ?B"
    by (simp add: g)
  have notin: "p \<notin> set (map fst ?A)"
    using fst_filter_zip_upt [of ?Q 0 p "take p s"] by auto
  have sndA: "map snd ?A = filter ?Q (take p s)"
    using p by (intro snd_filter_zip) simp
  have lenA: "length (map fst ?A) = length (filter ?Q (take p s))"
    using arg_cong [OF sndA, of length] by simp
  have vg: "map (\<lambda>(i, r). vals r c) g = map (\<lambda>r. vals r c) (map snd g)"
    by (simp add: case_prod_unfold)
  have sndg: "map snd g = filter ?Q (take p s) @ s ! p # map snd ?B"
    using sndA by (simp add: g)
  let ?xs = "map (\<lambda>(i, r). vals r c) g"
  have lenxs: "length ?xs = length (map fst g)" by simp
  have j: "length (map fst ?A) < length ?xs"
    by (simp add: g)
  have tk: "take (length (map fst ?A)) ?xs = map (\<lambda>r. vals r c) (filter ?Q (take p s))"
    unfolding vg sndg lenA by simp
  have "map_of (zip (map fst g) (shifted_rolling_mean w ?xs)) p =
      Some (shifted_rolling_mean w ?xs ! length (map fst ?A))"
    unfolding fstg
    by (rule map_of_zip_at [OF notin])
       (simp add: shifted_rolling_mean_def rolling_mean_def shift1_def g)
  also have "shifted_rolling_mean w ?xs ! length (map fst ?A) =
      nan_mean (last_n w (take (length (map fst ?A)) ?xs))"
    by (rule shifted_rolling_mean_nth [OF j])
  finally show ?thesis
    unfolding tk by (simp add: prior_games_def k)
qed

lemma group_block_other:
  assumes "p < length s" and "gkey (s ! p) \<noteq> k"
  shows "map_of (zip (map fst (filter (\<lambda>(i, r). gkey r = k) (zip [0..<length s] s))) out) p = None"
proof -
  have "p \<notin> set (map fst (filter (\<lambda>(i, r). gkey r = k) (zip [0..<length s] s)))"
  proof
    assume "p \<in> set (map fst (filter (\<lambda>(i, r). gkey r = k) (zip [0..<length s] s)))"
    then obtain r where "(p, r) \<in> set (filter (\<lambda>(i, r). gkey r = k) (zip [0..<length s] s))"
      by auto
    from nth_in_filter_zip [OF this] assms show False by simp
  qed
  then have "p \<notin> fst ` set (zip (map fst (filter (\<lambda>(i, r). gkey r = k) (zip [0..<length s] s))) out)"
    by (auto dest: set_zip_leftD)
  then show ?thesis by (simp add: map_of_eq_None_iff)
qed

lemma map_of_concat_blocks:
  assumes "\<And>k. k \<in> set ks \<Longrightarrow> k \<noteq> k0 \<Longrightarrow> map_of (blk k) p = None"
  shows "map_of (concat (map blk ks)) p = (if k0 \<in> set ks then map_of (blk k0) p else None)"
  using assms
proof (induction ks)
  case Nil
  show ?case by simp
next
  case (Cons k ks)
  show ?case
  proof (cases "k = k0")
    case True
    show ?thesis
    proof (cases "map_of (blk k0) p")
      case None
      with True Cons show ?thesis by (simp add: map_add_def)
    next
      case (Some v)
      with True show ?thesis by (simp add: map_add_def)
    qed
  next
    case False
    with Cons show ?thesis by (simp add: map_add_def)
  qed
qed

lemma set_group_keys: "set (group_keys s) = {k \<in> gkey ` set s. None \<notin> set k}"
  by (auto simp: group_keys_def)

text \<open>
  The new column, row by row: NaN for a row with a null in its key, and otherwise the mean of
  the values that are not NaN among the last \<open>w\<close> games of the row's entity before it.
\<close>

lemma roll_column_nth:
  assumes p: "p < length s"
  shows "roll_column w c s ! p =
           (if None \<in> set (gkey (s ! p)) then None
            else nan_mean (last_n w (map (\<lambda>r. vals r c) (prior_games s p))))"
proof -
  let ?k0 = "gkey (s ! p)"
  define blk where "blk = (\<lambda>k. let g = filter (\<lambda>(i, r). gkey r = k) (zip [0..<length s] s)
      in zip (map fst g) (shifted_rolling_mean w (map (\<lambda>(i, r). vals r c) g)))"
  have ga: "groupby_apply w c s = concat (map blk (group_keys s))"
    by (simp add: groupby_apply_def blk_def Let_def)
  have other: "map_of (blk k) p = None" if "k \<noteq> ?k0" for k
    unfolding blk_def Let_def using that by (intro group_block_other [OF p]) simp
  have mo: "map_of (groupby_apply w c s) p =
      (if ?k0 \<in> set (group_keys s) then map_of (blk ?k0) p else None)"
    unfolding ga by (rule map_of_concat_blocks) (simp add: other)
  have own: "map_of (blk ?k0) p =
      Some (nan_mean (last_n w (map (\<lambda>r. vals r c) (prior_games s p))))"
    unfolding blk_def Let_def by (rule group_block_at [OF p refl])
  have mem: "?k0 \<in> set (group_keys s) \<longleftrightarrow> None \<notin> set ?k0"
    using p by (auto simp: set_group_keys)
  have "roll_column w c s ! p =
      (case map_of (groupby_apply w c s) p of Some v \<Rightarrow> v | None \<Rightarrow> None)"
    using p by (simp add: roll_column_def)
  then show ?thesis
    by (simp add: mo own mem)
qed

lemma length_roll_column: "length (roll_column w c s) = length s"
  by (simp add: roll_column_def)

text \<open>
  In the sorted table the games of an entity before a row are dated no later than the row, so
  a row that must not change has only such rows among its prior games, and its rolling value
  is the same in two tables that agree on the past.
\<close>

lemma sorted_same_key_dates:
  assumes "sorted_wrt row_le s" and "i < p" and "p < length s"
    and "gkey (s ! i) = gkey (s ! p)"
  shows "\<not> cell_lt (gdate (s ! p)) (gdate (s ! i))"
proof -
  have "row_le (s ! i) (s ! p)"
    using assms(1-3) by (simp add: sorted_wrt_iff_nth_less)
  with assms(4) show ?thesis
    by (simp add: row_le_def keys_lt_irrefl)
qed

lemma prior_not_may_change:
  assumes srt: "sorted_wrt row_le s" and p: "p < length s"
    and np: "\<not> may_change E T2 (s ! p)"
    and r: "r \<in> set (prior_games s p)"
  shows "\<not> may_change E T2 r"
proof -
  from r have rk: "gkey r = gkey (s ! p)" and "r \<in> set (take p s)"
    by (simp_all add: prior_games_def)
  then obtain i where i: "i < p" "r = s ! i"
    using p by (auto simp: in_set_conv_nth)
  have d: "\<not> cell_lt (gdate (s ! p)) (gdate r)"
    using sorted_same_key_dates [OF srt i(1) p] rk i(2) by simp
  show ?thesis
  proof (cases "gkey (s ! p) = E")
    case False
    with rk show ?thesis by (simp add: may_change_def)
  next
    case True
    with np obtain dp where dp: "gdate (s ! p) = Some dp" "dp < T2"
      by (auto simp: may_change_def split: option.splits)
    from d dp obtain dr where "gdate r = Some dr" "dr \<le> dp"
      by (cases "gdate r") auto
    with dp show ?thesis by (simp add: may_change_def)
  qed
qed

lemma filter_vals_agree:
  assumes "list_all2 (same_past E T2) xs ys"
    and "\<And>r. r \<in> set (filter (\<lambda>r. gkey r = k) xs) \<Longrightarrow> \<not> may_change E T2 r"
  shows "map (\<lambda>r. vals r c) (filter (\<lambda>r. gkey r = k) ys) =
         map (\<lambda>r. vals r c) (filter (\<lambda>r. gkey r = k) xs)"
  using assms
proof (induction rule: list_all2_induct)
  case Nil
  show ?case by simp
next
  case (Cons a as b bs)
  from Cons.hyps(1) have kb: "gkey b = gkey a" by (simp add: same_past_def)
  have tl: "map (\<lambda>r. vals r c) (filter (\<lambda>r. gkey r = k) bs) =
         map (\<lambda>r. vals r c) (filter (\<lambda>r. gkey r = k) as)"
    by (rule Cons.IH) (simp add: Cons.prems)
  show ?case
  proof (cases "gkey a = k")
    case True
    then have "\<not> may_change E T2 a" using Cons.prems by simp
    with Cons.hyps(1) have "vals b = vals a" by (simp add: same_past_def)
    with True kb tl show ?thesis by simp
  next
    case False
    with kb tl show ?thesis by simp
  qed
qed

lemma roll_column_agree:
  assumes rel: "list_all2 (same_past E T2) s s'"
    and srt: "sorted_wrt row_le s"
    and p: "p < length s" and np: "\<not> may_change E T2 (s ! p)"
  shows "roll_column w c s' ! p = roll_column w c s ! p"
proof -
  from rel have len: "length s' = length s" by (simp add: list_all2_lengthD)
  from rel p have sp: "same_past E T2 (s ! p) (s' ! p)" by (simp add: list_all2_nthD)
  then have k: "gkey (s' ! p) = gkey (s ! p)" by (simp add: same_past_def)
  have tk: "list_all2 (same_past E T2) (take p s) (take p s')"
    using rel by (rule list_all2_takeI)
  have "map (\<lambda>r. vals r c) (prior_games s' p) = map (\<lambda>r. vals r c) (prior_games s p)"
    unfolding prior_games_def k
  proof (rule filter_vals_agree [OF tk])
    fix r assume "r \<in> set (filter (\<lambda>r. gkey r = gkey (s ! p)) (take p s))"
    then have "r \<in> set (prior_games s p)" by (simp add: prior_games_def)
    then show "\<not> may_change E T2 r" by (rule prior_not_may_change [OF srt p np])
  qed
  then show ?thesis
    using p len by (simp add: roll_column_nth k)
qed

lemma assign_column_agree:
  assumes ag: "frames_agree E T2 d d'" and srt: "sorted_wrt row_le (frows d)"
  shows "frames_agree E T2 (assign_column name (roll_column w c (frows d)) d)
           (assign_column name (roll_column w c (frows d')) d')"
proof -
  let ?s = "frows d" and ?s' = "frows d'"
  from ag have cols: "fcols d' = fcols d" and rel: "list_all2 (same_past E T2) ?s ?s'"
    by (simp_all add: frames_agree_def)
  from rel have len: "length ?s' = length ?s" by (simp add: list_all2_lengthD)
  have "list_all2 (same_past E T2)
      (map (\<lambda>(r, v). r\<lparr>vals := (vals r)(name := v)\<rparr>) (zip ?s (roll_column w c ?s)))
      (map (\<lambda>(r, v). r\<lparr>vals := (vals r)(name := v)\<rparr>) (zip ?s' (roll_column w c ?s')))"
  proof (rule list_all2_all_nthI)
    show "length (map (\<lambda>(r, v). r\<lparr>vals := (vals r)(name := v)\<rparr>) (zip ?s (roll_column w c ?s))) =
        length (map (\<lambda>(r, v). r\<lparr>vals := (vals r)(name := v)\<rparr>) (zip ?s' (roll_column w c ?s')))"
      by (simp add: length_roll_column len)
  next
    fix p
    assume "p < length (map (\<lambda>(r, v). r\<lparr>vals := (vals r)(name := v)\<rparr>) (zip ?s (roll_column w c ?s)))"
    then have p: "p < length ?s" by (simp add: length_roll_column)
    from rel p have sp: "same_past E T2 (?s ! p) (?s' ! p)" by (simp add: list_all2_nthD)
    have "may_change E T2 (?s ! p) \<or>
        (vals (?s' ! p))(name := roll_column w c ?s' ! p) =
        (vals (?s ! p))(name := roll_column w c ?s ! p)"
    proof (cases "may_change E T2 (?s ! p)")
      case True
      then show ?thesis by simp
    next
      case False
      with sp have "vals (?s' ! p) = vals (?s ! p)" by (simp add: same_past_def)
      moreover have "roll_column w c ?s' ! p = roll_column w c ?s ! p"
        by (rule roll_column_agree [OF rel srt p False])
      ultimately show ?thesis by simp
    qed
    with sp show "same_past E T2
        (map (\<lambda>(r, v). r\<lparr>vals := (vals r)(name := v)\<rparr>) (zip ?s (roll_column w c ?s)) ! p)
        (map (\<lambda>(r, v). r\<lparr>vals := (vals r)(name := v)\<rparr>) (zip ?s' (roll_column w c ?s')) ! p)"
      using p len by (simp add: length_roll_column same_past_def may_change_def)
  qed
  with cols show ?thesis
    by (simp add: frames_agree_def assign_column_def)
qed

lemma assign_column_keys:
  assumes "length col = length (frows d)"
  shows "map gkey (frows (assign_column name col d)) = map gkey (frows d) \<and>
   map gdate (frows (assign_column name col d)) = map gdate (frows d)"
proof -
  have "map gkey (map (\<lambda>(r, v). r\<lparr>vals := (vals r)(name := v)\<rparr>) (zip xs ys)) = map gkey xs \<and>
        map gdate (map (\<lambda>(r, v). r\<lparr>vals := (vals r)(name := v)\<rparr>) (zip xs ys)) = map gdate xs"
    if "length xs = length ys" for xs :: "'a game list" and ys
    using that by (induction xs ys rule: list_induct2) simp_all
  from this [of "frows d" col] assms show ?thesis
    by (simp add: assign_column_def)
qed

lemma sorted_wrt_keys:
  assumes "map gkey s' = map gkey s" and "map gdate s' = map gdate s"
    and "sorted_wrt row_le s"
  shows "sorted_wrt row_le s'"
proof -
  have len: "length s' = length s" using assms(1) by (rule map_eq_imp_length_eq)
  have k: "gkey (s' ! i) = gkey (s ! i)" if "i < length s" for i
  proof -
    have "map gkey s' ! i = map gkey s ! i" by (simp add: assms(1))
    then show ?thesis using that len by simp
  qed
  have dt: "gdate (s' ! i) = gdate (s ! i)" if "i < length s" for i
  proof -
    have "map gdate s' ! i = map gdate s ! i" by (simp add: assms(2))
    then show ?thesis using that len by simp
  qed
  have "row_le (s' ! i) (s' ! j)" if "i < j" "j < length s" for i j
  proof -
    have "row_le (s ! i) (s ! j)"
      using assms(3) that by (simp add: sorted_wrt_iff_nth_less)
    then show ?thesis
      using that by (simp add: row_le_def k dt)
  qed
  then show ?thesis
    by (simp add: sorted_wrt_iff_nth_less len)
qed

lemma assign_column_sorted:
  assumes "sorted_wrt row_le (frows d)"
  shows "sorted_wrt row_le (frows (assign_column name (roll_column w c (frows d)) d))"
proof -
  have "length (roll_column w c (frows d)) = length (frows d)"
    by (rule length_roll_column)
  from assign_column_keys [OF this, of name]
  show ?thesis using assms by (blast intro: sorted_wrt_keys)
qed

lemma roll_windows_agree:
  assumes "frames_agree E T2 d d'" and "sorted_wrt row_le (frows d)"
  shows "frames_agree E T2 (roll_windows prefix c ws d) (roll_windows prefix c ws d') \<and>
         sorted_wrt row_le (frows (roll_windows prefix c ws d))"
  using assms
proof (induction ws arbitrary: d d')
  case Nil
  then show ?case by (simp add: roll_windows_def)
next
  case (Cons w ws)
  let ?d1 = "assign_column (roll_name prefix w c) (roll_column w c (frows d)) d"
  let ?d1' = "assign_column (roll_name prefix w c) (roll_column w c (frows d')) d'"
  have a: "frames_agree E T2 ?d1 ?d1'"
    using Cons.prems by (rule assign_column_agree)
  have s: "sorted_wrt row_le (frows ?d1)"
    using Cons.prems(2) by (rule assign_column_sorted)
  have "roll_windows prefix c (w # ws) d = roll_windows prefix c ws ?d1"
    "roll_windows prefix c (w # ws) d' = roll_windows prefix c ws ?d1'"
    by (simp_all add: roll_windows_def)
  with Cons.IH [OF a s] show ?case by simp
qed

lemma value_cols_agree:
  assumes "frames_agree E T2 d d'" and "sorted_wrt row_le (frows d)"
  shows "frames_agree E T2
           (fold (\<lambda>c d. if c \<notin> set (fcols d) then d else roll_windows prefix c ws d) cs d)
           (fold (\<lambda>c d. if c \<notin> set (fcols d) then d else roll_windows prefix c ws d) cs d')"
  using assms
proof (induction cs arbitrary: d d')
  case Nil
  then show ?case by simp
next
  case (Cons c cs)
  let ?f = "\<lambda>c d. if c \<notin> set (fcols d) then d else roll_windows prefix c ws d"
  from Cons.prems(1) have cols: "fcols d' = fcols d" by (simp add: frames_agree_def)
  have "frames_agree E T2 (?f c d) (?f c d') \<and> sorted_wrt row_le (frows (?f c d))"
    using roll_windows_agree [OF Cons.prems] Cons.prems cols by simp
  then have "frames_agree E T2 (fold ?f cs (?f c d)) (fold ?f cs (?f c d'))"
    using Cons.IH by blast
  then show ?case by simp
qed

text \<open>
  Claim C1. Let two input tables have the same columns and, row by row, the same keys and
  dates, and differ at most in the statistic values of the rows of entity \<open>E\<close> dated
  \<open>T2\<close> or later. Then the two results of \<open>rolling_features\<close> stand in the same relation:
  for every list of value columns, every list of windows and every prefix, each row of \<open>E\<close>
  dated \<open>T1 < T2\<close> sits at the same place in both results and has the same value in every
  column, the rolling columns included; the rows of the other entities are unchanged as well.
\<close>

theorem no_leakage:
  assumes "frames_agree E T2 df df'"
  shows "frames_agree E T2 (rolling_features df value_cols windows prefix)
           (rolling_features df' value_cols windows prefix) \<and>
         (\<forall>p T1. p < length (frows (rolling_features df value_cols windows prefix)) \<and>
                 gkey (frows (rolling_features df value_cols windows prefix) ! p) = E \<and>
                 gdate (frows (rolling_features df value_cols windows prefix) ! p) = Some T1 \<and>
                 T1 < T2 \<longrightarrow>
                 gkey (frows (rolling_features df' value_cols windows prefix) ! p) = E \<and>
                 gdate (frows (rolling_features df' value_cols windows prefix) ! p) = Some T1 \<and>
                 vals (frows (rolling_features df' value_cols windows prefix) ! p) =
                 vals (frows (rolling_features df value_cols windows prefix) ! p))"
proof -
  let ?d0 = "df\<lparr>frows := sort_values (frows df)\<rparr>"
  let ?d0' = "df'\<lparr>frows := sort_values (frows df')\<rparr>"
  from assms have cols: "fcols df' = fcols df"
    and rel: "list_all2 (same_past E T2) (frows df) (frows df')"
    by (simp_all add: frames_agree_def)
  have "list_all2 (same_past E T2) (sort_values (frows df)) (sort_values (frows df'))"
    using rel by (rule sort_values_rel) (simp add: same_past_def)
  then have a0: "frames_agree E T2 ?d0 ?d0'"
    using cols by (simp add: frames_agree_def)
  have s0: "sorted_wrt row_le (frows ?d0)"
    by (simp add: sorted_sort_values)
  have ag: "frames_agree E T2 (rolling_features df value_cols windows prefix)
           (rolling_features df' value_cols windows prefix)"
    unfolding rolling_features_def Let_def by (rule value_cols_agree [OF a0 s0])
  let ?o = "frows (rolling_features df value_cols windows prefix)"
  let ?o' = "frows (rolling_features df' value_cols windows prefix)"
  from ag have orel: "list_all2 (same_past E T2) ?o ?o'" by (simp add: frames_agree_def)
  have "gkey (?o' ! p) = E \<and> gdate (?o' ! p) = Some T1 \<and> vals (?o' ! p) = vals (?o ! p)"
    if "p < length ?o" "gkey (?o ! p) = E" "gdate (?o ! p) = Some T1" "T1 < T2" for p T1
  proof -
    from orel that(1) have "same_past E T2 (?o ! p) (?o' ! p)" by (simp add: list_all2_nthD)
    moreover have "\<not> may_change E T2 (?o ! p)"
      using that by (simp add: may_change_def)
    ultimately show ?thesis using that by (simp add: same_past_def)
  qed
  with ag show ?thesis by blast
qed

text \<open>The example: the values of days 4 to 6 are changed, the rows of days 1 to 3 keep their rolling values.\<close>

lemma ex_bos_agree: "frames_agree [Some (STR ''BOS'')] 4 ex_bos ex_bos_changed"
  by (simp add: frames_agree_def ex_bos_def ex_bos_changed_def same_past_def may_change_def
      bos_game_def)

lemma ex_bos_rolled:
  "map (\<lambda>r. (gkey r, gdate r, vals r ''team_5_goalsFor''))
     (frows (rolling_features ex_bos [''goalsFor''] [5] ''team_'')) =
   [([Some (STR ''BOS'')], Some 1, None), ([Some (STR ''BOS'')], Some 2, Some 2),
    ([Some (STR ''BOS'')], Some 3, Some 3), ([Some (STR ''BOS'')], Some 4, Some 4),
    ([Some (STR ''BOS'')], Some 5, Some 5), ([Some (STR ''BOS'')], Some 6, Some 6)]"
  by code_simp

theorem no_leakage_witness:
  "vals (frows (rolling_features ex_bos_changed [''goalsFor''] [5] ''team_'') ! 0)
     ''team_5_goalsFor'' = None \<and>
   vals (frows (rolling_features ex_bos_changed [''goalsFor''] [5] ''team_'') ! 1)
     ''team_5_goalsFor'' = Some 2 \<and>
   vals (frows (rolling_features ex_bos_changed [''goalsFor''] [5] ''team_'') ! 2)
     ''team_5_goalsFor'' = Some 3"
proof -
  let ?o = "frows (rolling_features ex_bos [''goalsFor''] [5] ''team_'')"
  let ?o' = "frows (rolling_features ex_bos_changed [''goalsFor''] [5] ''team_'')"
  have len: "length ?o = 6"
    using arg_cong [OF ex_bos_rolled, of length] by simp
  have row: "gkey (?o ! p) = fst (map (\<lambda>r. (gkey r, gdate r, vals r ''team_5_goalsFor'')) ?o ! p)"
    "gdate (?o ! p) = fst (snd (map (\<lambda>r. (gkey r, gdate r, vals r ''team_5_goalsFor'')) ?o ! p))"
    "vals (?o ! p) ''team_5_goalsFor'' =
       snd (snd (map (\<lambda>r. (gkey r, gdate r, vals r ''team_5_goalsFor'')) ?o ! p))"
    if "p < 6" for p
    using that len by simp_all
  note nl = no_leakage [OF ex_bos_agree, of "[''goalsFor'']" "[5]" "''team_''"]
  then have past: "vals (?o' ! p) = vals (?o ! p)"
    if "p < length ?o" "gkey (?o ! p) = [Some (STR ''BOS'')]" "gdate (?o ! p) = Some T1" "T1 < 4"
    for p T1
    using that by blast
  have "vals (?o' ! 0) = vals (?o ! 0)"
    by (rule past [where ?T1.0 = 1]) (simp_all add: len row ex_bos_rolled)
  moreover have "vals (?o' ! 1) = vals (?o ! 1)"
    by (rule past [where ?T1.0 = 2]) (simp_all add: len row ex_bos_rolled)
  moreover have "vals (?o' ! 2) = vals (?o ! 2)"
    by (rule past [where ?T1.0 = 3]) (simp_all add: len row ex_bos_rolled)
  ultimately show ?thesis
    by (simp add: row ex_bos_rolled)
qed

text \<open>
  The name of a rolled column determines its window and its source column: the decimal
  numeral can be read back and holds no underscore.
\<close>

lemma digit_val_digit_char: "d < 10 \<Longrightarrow> digit_val (digit_char d) = d"
  by (simp add: digit_val_def digit_char_def)

lemma nat_of_str_snoc: "nat_of_str (s @ [c]) = 10 * nat_of_str s + digit_val c"
  by (simp add: nat_of_str_def)

lemma nat_of_str_str_nat: "nat_of_str (str_nat n) = n"
proof (induction n rule: str_nat.induct)
  case (1 n)
  show ?case
  proof (cases "n < 10")
    case True
    then show ?thesis
      by (subst str_nat.simps) (simp add: nat_of_str_def digit_val_digit_char)
  next
    case False
    then have "nat_of_str (str_nat n) = 10 * nat_of_str (str_nat (n div 10)) + digit_val (digit_char (n mod 10))"
      by (subst str_nat.simps) (simp add: nat_of_str_snoc)
    also have "\<dots> = 10 * (n div 10) + n mod 10"
      using 1 False by (simp add: digit_val_digit_char)
    finally show ?thesis by simp
  qed
qed

lemma str_nat_inj: "str_nat m = str_nat n \<Longrightarrow> m = n"
  by (metis nat_of_str_str_nat)

lemma underscore_not_digit: "d < 10 \<Longrightarrow> digit_char d \<noteq> CHR ''_''"
proof
  assume "d < 10" and "digit_char d = CHR ''_''"
  then have "of_char (digit_char d) = (of_char (CHR ''_'') :: nat)" by simp
  with \<open>d < 10\<close> show False by (simp add: digit_char_def)
qed

lemma underscore_notin_str_nat: "CHR ''_'' \<notin> set (str_nat n)"
proof (induction n rule: str_nat.induct)
  case (1 n)
  show ?case
  proof (cases "n < 10")
    case True
    then show ?thesis
      using underscore_not_digit [of n] by (subst str_nat.simps) auto
  next
    case False
    then show ?thesis
      using 1 underscore_not_digit [of "n mod 10"] by (subst str_nat.simps) auto
  qed
qed

lemma split_at_separator:
  assumes "xs @ a # ys = xs' @ a # ys'" and "a \<notin> set xs" and "a \<notin> set xs'"
  shows "xs = xs' \<and> ys = ys'"
proof -
  have tw: "a \<notin> set zs \<Longrightarrow> takeWhile (\<lambda>x. x \<noteq> a) (zs @ a # us) = zs" for zs us
    by (induction zs) auto
  have "takeWhile (\<lambda>x. x \<noteq> a) (xs @ a # ys) = xs"
    using assms(2) by (rule tw)
  moreover have "takeWhile (\<lambda>x. x \<noteq> a) (xs' @ a # ys') = xs'"
    using assms(3) by (rule tw)
  ultimately have "xs = xs'" using assms(1) by simp
  with assms(1) show ?thesis by simp
qed

lemma roll_name_inj:
  assumes "roll_name prefix w c = roll_name prefix w' c'"
  shows "w = w' \<and> c = c'"
proof -
  from assms have "str_nat w @ CHR ''_'' # c = str_nat w' @ CHR ''_'' # c'"
    by (simp add: roll_name_def)
  then have "str_nat w = str_nat w' \<and> c = c'"
    by (rule split_at_separator) (simp_all add: underscore_notin_str_nat)
  then show ?thesis by (simp add: str_nat_inj)
qed

text \<open>
  A rolled column depends on the keys and on its source column only, and assigning a column
  under another name keeps both.
\<close>

lemma keeps_sources_refl: "keeps_sources cs s s"
  by (simp add: keeps_sources_def list_all2_refl list_all_iff)

lemma keeps_sources_length: "keeps_sources cs s0 s \<Longrightarrow> length s = length s0"
  by (simp add: keeps_sources_def list_all2_lengthD)

lemma keeps_sources_nth:
  assumes "keeps_sources cs s0 s" and "p < length s0"
  shows "gkey (s ! p) = gkey (s0 ! p) \<and> gdate (s ! p) = gdate (s0 ! p) \<and>
         (\<forall>c\<in>set cs. vals (s ! p) c = vals (s0 ! p) c)"
  using assms list_all2_nthD [of _ s0 s p]
  by (fastforce simp: keeps_sources_def list_all_iff)

lemma keeps_sources_filter_vals:
  assumes "list_all2 (\<lambda>r r'. gkey r' = gkey r \<and> gdate r' = gdate r \<and>
                        list_all (\<lambda>c. vals r' c = vals r c) cs) xs ys"
    and "c \<in> set cs"
  shows "map (\<lambda>r. vals r c) (filter (\<lambda>r. gkey r = k) ys) =
         map (\<lambda>r. vals r c) (filter (\<lambda>r. gkey r = k) xs)"
  using assms(1)
proof (induction rule: list_all2_induct)
  case Nil
  show ?case by simp
next
  case (Cons a as b bs)
  then show ?case using assms(2) by (auto simp: list_all_iff)
qed

lemma roll_column_sources:
  assumes ks: "keeps_sources cs s0 s" and c: "c \<in> set cs"
  shows "roll_column w c s = roll_column w c s0"
proof (rule nth_equalityI)
  show "length (roll_column w c s) = length (roll_column w c s0)"
    using ks by (simp add: length_roll_column keeps_sources_length)
next
  fix p assume "p < length (roll_column w c s)"
  then have p: "p < length s" and p0: "p < length s0"
    using ks by (simp_all add: length_roll_column keeps_sources_length)
  have k: "gkey (s ! p) = gkey (s0 ! p)"
    using keeps_sources_nth [OF ks p0] by simp
  have "list_all2 (\<lambda>r r'. gkey r' = gkey r \<and> gdate r' = gdate r \<and>
                        list_all (\<lambda>c. vals r' c = vals r c) cs) (take p s0) (take p s)"
    using ks unfolding keeps_sources_def by (rule list_all2_takeI)
  then have "map (\<lambda>r. vals r c) (prior_games s p) = map (\<lambda>r. vals r c) (prior_games s0 p)"
    unfolding prior_games_def k using c by (rule keeps_sources_filter_vals)
  then show "roll_column w c s ! p = roll_column w c s0 ! p"
    by (simp add: roll_column_nth p p0 k)
qed

lemma vals_after_assign:
  "length xs = length col \<Longrightarrow>
   map (\<lambda>r. vals r x) (map (\<lambda>(r, v). r\<lparr>vals := (vals r)(name := v)\<rparr>) (zip xs col)) =
     (if x = name then col else map (\<lambda>r. vals r x) xs)"
  by (induction xs col rule: list_induct2) auto

lemma keeps_sources_assign:
  assumes ks: "keeps_sources cs s0 xs" and len: "length xs = length col"
    and n: "name \<notin> set cs"
  shows "keeps_sources cs s0 (map (\<lambda>(r, v). r\<lparr>vals := (vals r)(name := v)\<rparr>) (zip xs col))"
proof -
  have "list_all2 (\<lambda>r r'. gkey r' = gkey r \<and> gdate r' = gdate r \<and>
                        list_all (\<lambda>c. vals r' c = vals r c) cs) xs
          (map (\<lambda>(r, v). r\<lparr>vals := (vals r)(name := v)\<rparr>) (zip xs col))"
    using len n by (induction xs col rule: list_induct2) (auto simp: list_all_iff)
  with ks show ?thesis
    unfolding keeps_sources_def
    by (rule list_all2_trans [rotated]) (auto simp: list_all_iff)
qed

text \<open>
  The loops of \<open>rolling_features\<close> keep the keys, the dates and the value columns of the
  sorted input, provided no rolled column is named like a value column, and leave in the column
  of every pair (value column, window) the rolled values of that column.
\<close>

lemma roll_step:
  assumes ks: "keeps_sources cs s0 (frows d)" and ro: "rolled prefix s0 X (frows d)"
    and c: "c \<in> set cs" and n: "roll_name prefix w c \<notin> set cs"
  shows "keeps_sources cs s0
           (frows (assign_column (roll_name prefix w c) (roll_column w c (frows d)) d)) \<and>
         rolled prefix s0 (insert (c, w) X)
           (frows (assign_column (roll_name prefix w c) (roll_column w c (frows d)) d)) \<and>
         (\<forall>x\<in>set cs. (x \<in> set (fcols (assign_column (roll_name prefix w c)
                                       (roll_column w c (frows d)) d))) = (x \<in> set (fcols d)))"
proof -
  let ?name = "roll_name prefix w c"
  let ?col = "roll_column w c (frows d)"
  let ?rows = "map (\<lambda>(r, v). r\<lparr>vals := (vals r)(?name := v)\<rparr>) (zip (frows d) ?col)"
  have rows: "frows (assign_column ?name ?col d) = ?rows"
    by (simp add: assign_column_def)
  have len: "length (frows d) = length ?col" by (simp add: length_roll_column)
  have col: "?col = roll_column w c s0" using ks c by (rule roll_column_sources)
  have a: "keeps_sources cs s0 ?rows"
    using ks len n by (rule keeps_sources_assign)
  have va: "map (\<lambda>r. vals r x) ?rows = (if x = ?name then ?col else map (\<lambda>r. vals r x) (frows d))"
    for x by (rule vals_after_assign [OF len])
  have b: "rolled prefix s0 (insert (c, w) X) ?rows"
    unfolding rolled_def
  proof (intro ballI, clarify)
    fix c' w' assume m: "(c', w') \<in> insert (c, w) X"
    show "map (\<lambda>r. vals r (roll_name prefix w' c')) ?rows = roll_column w' c' s0"
    proof (cases "roll_name prefix w' c' = ?name")
      case True
      then have wc: "w' = w \<and> c' = c" by (rule roll_name_inj)
      have "map (\<lambda>r. vals r ?name) ?rows = ?col" by (simp only: va refl if_True)
      with wc col show ?thesis by simp
    next
      case False
      with m have "(c', w') \<in> X" by auto
      with ro have "map (\<lambda>r. vals r (roll_name prefix w' c')) (frows d) = roll_column w' c' s0"
        by (auto simp: rolled_def)
      moreover have "map (\<lambda>r. vals r (roll_name prefix w' c')) ?rows =
          map (\<lambda>r. vals r (roll_name prefix w' c')) (frows d)"
        using False by (simp only: va if_False)
      ultimately show ?thesis by simp
    qed
  qed
  have cc: "\<forall>x\<in>set cs. (x \<in> set (fcols (assign_column ?name ?col d))) = (x \<in> set (fcols d))"
    using n by (auto simp: assign_column_def)
  from a b cc show ?thesis by (simp only: rows) 
qed

lemma roll_windows_rolled:
  assumes "keeps_sources cs s0 (frows d)" and "rolled prefix s0 X (frows d)"
    and "c \<in> set cs" and "\<forall>w\<in>set ws. roll_name prefix w c \<notin> set cs"
  shows "keeps_sources cs s0 (frows (roll_windows prefix c ws d)) \<and>
         rolled prefix s0 (X \<union> {c} \<times> set ws) (frows (roll_windows prefix c ws d)) \<and>
         (\<forall>x\<in>set cs. (x \<in> set (fcols (roll_windows prefix c ws d))) = (x \<in> set (fcols d)))"
  using assms
proof (induction ws arbitrary: d X)
  case Nil
  then show ?case by (simp add: roll_windows_def)
next
  case (Cons w ws)
  let ?d1 = "assign_column (roll_name prefix w c) (roll_column w c (frows d)) d"
  have n: "roll_name prefix w c \<notin> set cs" using Cons.prems(4) by simp
  note st = roll_step [OF Cons.prems(1,2,3) n]
  have rest: "\<forall>w\<in>set ws. roll_name prefix w c \<notin> set cs" using Cons.prems(4) by simp
  have un: "roll_windows prefix c (w # ws) d = roll_windows prefix c ws ?d1"
    by (simp add: roll_windows_def)
  have ih: "keeps_sources cs s0 (frows (roll_windows prefix c ws ?d1)) \<and>
         rolled prefix s0 (insert (c, w) X \<union> {c} \<times> set ws) (frows (roll_windows prefix c ws ?d1)) \<and>
         (\<forall>x\<in>set cs. (x \<in> set (fcols (roll_windows prefix c ws ?d1))) = (x \<in> set (fcols ?d1)))"
    using st Cons.prems(3) rest by (intro Cons.IH) simp_all
  have eq: "insert (c, w) X \<union> {c} \<times> set ws = X \<union> {c} \<times> set (w # ws)" by auto
  from ih st show ?case unfolding un eq by simp
qed

lemma value_cols_rolled:
  assumes "keeps_sources cs s0 (frows d)" and "rolled prefix s0 X (frows d)"
    and "set cs' \<subseteq> set cs"
    and "\<forall>c\<in>set cs. \<forall>w\<in>set ws. roll_name prefix w c \<notin> set cs"
    and "\<forall>x\<in>set cs. (x \<in> set (fcols d)) = (x \<in> set cols0)"
  shows "keeps_sources cs s0
           (frows (fold (\<lambda>c d. if c \<notin> set (fcols d) then d else roll_windows prefix c ws d) cs' d)) \<and>
         rolled prefix s0 (X \<union> {(c, w). c \<in> set cs' \<and> c \<in> set cols0 \<and> w \<in> set ws})
           (frows (fold (\<lambda>c d. if c \<notin> set (fcols d) then d else roll_windows prefix c ws d) cs' d))"
  using assms
proof (induction cs' arbitrary: d X)
  case Nil
  then show ?case by simp
next
  case (Cons c cs')
  let ?f = "\<lambda>c d. if c \<notin> set (fcols d) then d else roll_windows prefix c ws d"
  from Cons.prems(3) have c: "c \<in> set cs" and sub: "set cs' \<subseteq> set cs" by simp_all
  have H: "\<forall>w\<in>set ws. roll_name prefix w c \<notin> set cs" using Cons.prems(4) c by simp
  show ?case
  proof (cases "c \<in> set (fcols d)")
    case True
    then have c0: "c \<in> set cols0" using Cons.prems(5) c by simp
    note rw = roll_windows_rolled [OF Cons.prems(1,2) c H]
    have cols: "\<forall>x\<in>set cs. (x \<in> set (fcols (roll_windows prefix c ws d))) = (x \<in> set cols0)"
      using rw Cons.prems(5) by simp
    have ih: "keeps_sources cs s0 (frows (fold ?f cs' (roll_windows prefix c ws d))) \<and>
         rolled prefix s0 ((X \<union> {c} \<times> set ws) \<union> {(c, w). c \<in> set cs' \<and> c \<in> set cols0 \<and> w \<in> set ws})
           (frows (fold ?f cs' (roll_windows prefix c ws d)))"
      using rw sub Cons.prems(4) cols by (intro Cons.IH) simp_all
    have eq: "(X \<union> {c} \<times> set ws) \<union> {(c, w). c \<in> set cs' \<and> c \<in> set cols0 \<and> w \<in> set ws} =
        X \<union> {(c', w). c' \<in> set (c # cs') \<and> c' \<in> set cols0 \<and> w \<in> set ws}"
      using c0 by auto
    from ih True show ?thesis unfolding eq by simp
  next
    case False
    then have c0: "c \<notin> set cols0" using Cons.prems(5) c by simp
    have ih: "keeps_sources cs s0 (frows (fold ?f cs' d)) \<and>
         rolled prefix s0 (X \<union> {(c, w). c \<in> set cs' \<and> c \<in> set cols0 \<and> w \<in> set ws})
           (frows (fold ?f cs' d))"
      using Cons.prems(1,2) sub Cons.prems(4,5) by (rule Cons.IH)
    have eq: "X \<union> {(c, w). c \<in> set cs' \<and> c \<in> set cols0 \<and> w \<in> set ws} =
        X \<union> {(c', w). c' \<in> set (c # cs') \<and> c' \<in> set cols0 \<and> w \<in> set ws}"
      using c0 by auto
    from ih False show ?thesis unfolding eq by simp
  qed
qed

lemma nan_mean_Nil: "nan_mean [] = None"
  by (simp add: nan_mean_def List.map_filter_simps)

lemma map_filter_Some: "List.map_filter (\<lambda>z. z) (map Some vs) = vs"
  by (induction vs) (simp_all add: List.map_filter_simps)

lemma nan_mean_all_Some:
  "vs \<noteq> [] \<Longrightarrow> nan_mean (map Some vs) = Some (sum_list vs / real (length vs))"
  by (cases vs) (simp_all add: nan_mean_def map_filter_Some)

lemma map_the_Some:
  "\<forall>r\<in>set xs. f r \<noteq> None \<Longrightarrow> map f xs = map Some (map (\<lambda>r. the (f r)) xs)"
  by (induction xs) auto

lemma last_n_min: "last_n (min w (length xs)) xs = last_n w xs"
  by (simp add: last_n_def min_def)

lemma length_last_n: "length (last_n w xs) = min w (length xs)"
  by (auto simp: last_n_def min_def)

lemma map_last_n: "map f (last_n w xs) = last_n w (map f xs)"
  by (simp add: last_n_def drop_map)

text \<open>
  Claim C2. Let \<open>s\<close> be the input sorted by (entity, gameDate), which is the row order of
  the result, and let no rolled column be named like a value column. For every value column
  \<open>c\<close> of the table, every window \<open>w\<close> and every row, the rolled column holds the mean
  of \<open>c\<close> over the last min(w, k) of the k games of the same entity that precede the row,
  the row itself excluded; these are dated no later than the row, and the entity's games
  after the row no earlier. The mean is taken over the values that are not null and is null
  when there is none: it is null for k = 0, and it is the sum divided by min(w, k) when all
  these values are numbers. A row with a null in its key has a null rolled value.
\<close>

theorem rolling_mean_correct:
  fixes df :: "'k::linorder frame"
  assumes names: "\<forall>c\<in>set value_cols. \<forall>w\<in>set windows. roll_name prefix w c \<notin> set value_cols"
    and c: "c \<in> set value_cols" "c \<in> set (fcols df)" and w: "w \<in> set windows"
    and p: "p < length (frows df)"
  defines "s \<equiv> sort_values (frows df)"
    and "out \<equiv> frows (rolling_features df value_cols windows prefix)"
  defines "prior \<equiv> prior_games s p"
  defines "window \<equiv> last_n (min w (length prior)) prior"
  shows "length out = length (frows df) \<and>
     gkey (out ! p) = gkey (s ! p) \<and> gdate (out ! p) = gdate (s ! p) \<and>
     vals (out ! p) c = vals (s ! p) c \<and>
     (\<forall>r\<in>set prior. \<not> cell_lt (gdate (s ! p)) (gdate r)) \<and>
     (\<forall>i. p < i \<and> i < length s \<and> gkey (s ! i) = gkey (s ! p) \<longrightarrow>
          \<not> cell_lt (gdate (s ! i)) (gdate (s ! p))) \<and>
     vals (out ! p) (roll_name prefix w c) =
       (if None \<in> set (gkey (s ! p)) then None else nan_mean (map (\<lambda>r. vals r c) window)) \<and>
     (prior = [] \<longrightarrow> vals (out ! p) (roll_name prefix w c) = None) \<and>
     (None \<notin> set (gkey (s ! p)) \<and> prior \<noteq> [] \<and> 0 < w \<and> (\<forall>r\<in>set window. vals r c \<noteq> None) \<longrightarrow>
        vals (out ! p) (roll_name prefix w c) =
          Some (sum_list (map (\<lambda>r. the (vals r c)) window) / real (min w (length prior))))"
proof -
  let ?d0 = "df\<lparr>frows := s\<rparr>"
  let ?name = "roll_name prefix w c"
  have lens: "length s = length (frows df)" by (simp add: s_def length_sort_values)
  have ps: "p < length s" using p lens by simp
  have srt: "sorted_wrt row_le s" by (simp add: s_def sorted_sort_values)
  have "keeps_sources value_cols s (frows ?d0)" by (simp add: keeps_sources_refl)
  moreover have "rolled prefix s {} (frows ?d0)" by (simp add: rolled_def)
  moreover have "\<forall>x\<in>set value_cols. (x \<in> set (fcols ?d0)) = (x \<in> set (fcols df))" by simp
  ultimately have inv: "keeps_sources value_cols s out \<and>
      rolled prefix s ({} \<union> {(c, w). c \<in> set value_cols \<and> c \<in> set (fcols df) \<and> w \<in> set windows}) out"
    unfolding out_def rolling_features_def Let_def s_def [symmetric]
    using names by (intro value_cols_rolled) simp_all
  then have ks: "keeps_sources value_cols s out" by simp
  have leno: "length out = length (frows df)"
    using keeps_sources_length [OF ks] lens by simp
  note row = keeps_sources_nth [OF ks ps]
  from inv c w have "map (\<lambda>r. vals r ?name) out = roll_column w c s"
    by (auto simp: rolled_def)
  then have "map (\<lambda>r. vals r ?name) out ! p = roll_column w c s ! p" by simp
  then have "vals (out ! p) ?name = roll_column w c s ! p"
    using p leno by simp
  also have "\<dots> = (if None \<in> set (gkey (s ! p)) then None
                    else nan_mean (last_n w (map (\<lambda>r. vals r c) (prior_games s p))))"
    by (rule roll_column_nth [OF ps])
  also have "last_n w (map (\<lambda>r. vals r c) (prior_games s p)) = map (\<lambda>r. vals r c) window"
    by (simp add: window_def prior_def last_n_min map_last_n)
  finally have feat: "vals (out ! p) ?name =
      (if None \<in> set (gkey (s ! p)) then None else nan_mean (map (\<lambda>r. vals r c) window))" .
  have before: "\<forall>r\<in>set prior. \<not> cell_lt (gdate (s ! p)) (gdate r)"
  proof
    fix r assume "r \<in> set prior"
    then have rk: "gkey r = gkey (s ! p)" and "r \<in> set (take p s)"
      by (simp_all add: prior_def prior_games_def)
    then obtain i where i: "i < p" "r = s ! i"
      using ps by (auto simp: in_set_conv_nth)
    show "\<not> cell_lt (gdate (s ! p)) (gdate r)"
      using sorted_same_key_dates [OF srt i(1) ps] rk i(2) by simp
  qed
  have after: "\<forall>i. p < i \<and> i < length s \<and> gkey (s ! i) = gkey (s ! p) \<longrightarrow>
          \<not> cell_lt (gdate (s ! i)) (gdate (s ! p))"
    using sorted_same_key_dates [OF srt] by auto
  have first: "vals (out ! p) ?name = None" if "prior = []"
    using that feat by (simp add: window_def last_n_def nan_mean_Nil)
  have full: "vals (out ! p) ?name =
          Some (sum_list (map (\<lambda>r. the (vals r c)) window) / real (min w (length prior)))"
    if h: "None \<notin> set (gkey (s ! p))" "prior \<noteq> []" "0 < w" "\<forall>r\<in>set window. vals r c \<noteq> None"
  proof -
    have lw: "length window = min w (length prior)"
      by (simp add: window_def length_last_n)
    have "0 < length prior" using h(2) by simp
    with h(3) lw have "0 < length window" by simp
    then have ne: "map (\<lambda>r. the (vals r c)) window \<noteq> []"
      by auto
    have m: "map (\<lambda>r. vals r c) window = map Some (map (\<lambda>r. the (vals r c)) window)"
      using h(4) by (rule map_the_Some)
    have "nan_mean (map (\<lambda>r. vals r c) window) =
        Some (sum_list (map (\<lambda>r. the (vals r c)) window) /
              real (length (map (\<lambda>r. the (vals r c)) window)))"
      unfolding m by (rule nan_mean_all_Some [OF ne])
    then have "nan_mean (map (\<lambda>r. vals r c) window) =
        Some (sum_list (map (\<lambda>r. the (vals r c)) window) / real (length window))"
      by (simp only: length_map)
    with feat h(1) lw show ?thesis by simp
  qed
  from leno row c(1) before after feat first full show ?thesis by blast
qed

text \<open>The example of the specification: BOS, values 2, 4, 6, 8, 10, 12 on days 1 to 6, window 5.\<close>

lemma ex_roll_name: "roll_name ''team_'' 5 ''goalsFor'' = ''team_5_goalsFor''"
  by code_simp

lemma ex_bos_day6:
  "(if None \<in> set (gkey (sort_values (frows ex_bos) ! 5)) then None
    else nan_mean (map (\<lambda>r. vals r ''goalsFor'')
           (last_n (min 5 (length (prior_games (sort_values (frows ex_bos)) 5)))
              (prior_games (sort_values (frows ex_bos)) 5)))) = Some 6"
  by code_simp

lemma ex_bos_day1: "prior_games (sort_values (frows ex_bos)) 0 = []"
  by (simp add: prior_games_def)

theorem rolling_mean_correct_witness:
  "vals (frows (rolling_features ex_bos [''goalsFor''] [5] ''team_'') ! 5) ''team_5_goalsFor'' =
     Some 6 \<and>
   vals (frows (rolling_features ex_bos [''goalsFor''] [5] ''team_'') ! 0) ''team_5_goalsFor'' =
     None"
proof -
  have names: "\<forall>c\<in>set [''goalsFor'']. \<forall>w\<in>set [5]. roll_name ''team_'' w c \<notin> set [''goalsFor'']"
    by (simp add: ex_roll_name)
  have c: "''goalsFor'' \<in> set [''goalsFor'']" "''goalsFor'' \<in> set (fcols ex_bos)"
    by (simp_all add: ex_bos_def)
  have w: "(5::nat) \<in> set [5]" by simp
  have p5: "5 < length (frows ex_bos)" and p0: "0 < length (frows ex_bos)"
    by (simp_all add: ex_bos_def)
  from rolling_mean_correct [OF names c w p5]
  have "vals (frows (rolling_features ex_bos [''goalsFor''] [5] ''team_'') ! 5)
          (roll_name ''team_'' 5 ''goalsFor'') =
        (if None \<in> set (gkey (sort_values (frows ex_bos) ! 5)) then None
         else nan_mean (map (\<lambda>r. vals r ''goalsFor'')
           (last_n (min 5 (length (prior_games (sort_values (frows ex_bos)) 5)))
              (prior_games (sort_values (frows ex_bos)) 5))))"
    by blast
  then have a: "vals (frows (rolling_features ex_bos [''goalsFor''] [5] ''team_'') ! 5)
      ''team_5_goalsFor'' = Some 6"
    by (simp only: ex_bos_day6 ex_roll_name)
  from rolling_mean_correct [OF names c w p0]
  have "prior_games (sort_values (frows ex_bos)) 0 = [] \<longrightarrow>
        vals (frows (rolling_features ex_bos [''goalsFor''] [5] ''team_'') ! 0)
          (roll_name ''team_'' 5 ''goalsFor'') = None"
    by blast
  then have b: "vals (frows (rolling_features ex_bos [''goalsFor''] [5] ''team_'') ! 0)
      ''team_5_goalsFor'' = None"
    by (simp only: ex_bos_day1 ex_roll_name simp_thms)
  from a b show ?thesis by simp
qed

end

